theory Spec2Isabelle
  imports Main "HOL-Library.Extended_Nat"
begin

section \<open>Errors and JavaScript values\<close>

text \<open>
  Every \<^verbatim>\<open>throw\<close> and every rejected promise of the sources is a value of this type.
  \<^item> \<open>JsError m\<close> is \<^verbatim>\<open>new Error(m)\<close>;
  \<^item> \<open>TypeError\<close> is what the engine raises for a property read on \<^verbatim>\<open>undefined\<close> or for
    the \<^verbatim>\<open>in\<close> operator on something that is not an object;
  \<^item> \<open>SourceLoadError m t\<close> is the class of \<^verbatim>\<open>sources/manager\<close>: \<open>m\<close> is the complete message
    handed to \<^verbatim>\<open>super\<close>, \<open>t\<close> the \<^verbatim>\<open>sourceType\<close> field;
  \<^item> \<open>Rejected m\<close> is a failure of a collaborator that is not part of these sources (the
    board, a column, a card, a handler constructor, \<^verbatim>\<open>require\<close>).
\<close>

datatype jsval = Undefined | Null | Str string | Obj "(string \<times> jsval) list"

datatype error =
    JsError string
  | TypeError
  | SourceLoadError string jsval
  | Rejected string

text \<open>
  The configuration is JSON data, so an object is its list of own properties, each key
  once, and its prototype is \<^verbatim>\<open>Object.prototype\<close>.
\<close>

fun to_string :: "jsval \<Rightarrow> string" where
  "to_string Undefined = ''undefined''"
| "to_string Null = ''null''"
| "to_string (Str s) = s"
| "to_string (Obj _) = ''[object Object]''"

text \<open>
  \<^verbatim>\<open>o[k]\<close>: a \<^verbatim>\<open>TypeError\<close> on \<^verbatim>\<open>undefined\<close> and \<^verbatim>\<open>null\<close>. The code reads \<open>type\<close>,
  \<open>columns\<close> and column roles; the read is modelled on own properties, a string has no
  property of these names, and a role that names an inherited member would read a
  function, which is no column name.
\<close>

fun get_prop :: "jsval \<Rightarrow> string \<Rightarrow> error + jsval" where
  "get_prop (Obj kvs) k = Inr (case map_of kvs k of None \<Rightarrow> Undefined | Some v \<Rightarrow> v)"
| "get_prop (Str _) k = Inr Undefined"
| "get_prop _ k = Inl TypeError"

text \<open>
  The names of the properties of \<^verbatim>\<open>Object.prototype\<close>, which every object of the
  configuration inherits.
\<close>

definition Object_prototype :: "string list" where
  "Object_prototype =
     [''constructor'', ''__defineGetter__'', ''__defineSetter__'', ''hasOwnProperty'',
      ''__lookupGetter__'', ''__lookupSetter__'', ''isPrototypeOf'', ''propertyIsEnumerable'',
      ''toString'', ''valueOf'', ''__proto__'', ''toLocaleString'']"

text \<open>
  \<^verbatim>\<open>k in o\<close>: true for an own property and for an inherited one; a \<^verbatim>\<open>TypeError\<close> when
  \<open>o\<close> is not an object.
\<close>

fun in_op :: "string \<Rightarrow> jsval \<Rightarrow> error + bool" where
  "in_op k (Obj kvs) = Inr (k \<in> set (map fst kvs) \<or> k \<in> set Object_prototype)"
| "in_op k _ = Inl TypeError"

text \<open>\<^verbatim>\<open>xs.join(",")\<close> on an array of strings.\<close>

fun join :: "string list \<Rightarrow> string" where
  "join [] = []"
| "join [x] = x"
| "join (x # y # ys) = x @ '','' @ join (y # ys)"

subsection \<open>Programs with state and exceptions\<close>

text \<open>
  A method that mutates its object or calls a collaborator is a function from the state
  before to the outcome and the state after; the state after a \<^verbatim>\<open>throw\<close> is the state
  at the \<^verbatim>\<open>throw\<close>. \<open>try_catch\<close> is \<^verbatim>\<open>try { } catch(e) { }\<close>, \<open>for_each\<close> is
  \<^verbatim>\<open>for(const x of xs) { }\<close>.
\<close>

type_synonym ('a, 's) prog = "'s \<Rightarrow> (error + 'a) \<times> 's"

definition ret :: "'a \<Rightarrow> ('a, 's) prog" where
  "ret x = (\<lambda>s. (Inr x, s))"

definition throw :: "error \<Rightarrow> ('a, 's) prog" where
  "throw e = (\<lambda>s. (Inl e, s))"

definition lift :: "error + 'a \<Rightarrow> ('a, 's) prog" where
  "lift r = (\<lambda>s. (r, s))"

definition bind :: "('a, 's) prog \<Rightarrow> ('a \<Rightarrow> ('b, 's) prog) \<Rightarrow> ('b, 's) prog" where
  "bind m f = (\<lambda>s. case m s of (Inl e, s') \<Rightarrow> (Inl e, s') | (Inr x, s') \<Rightarrow> f x s')"


fun for_each :: "('a \<Rightarrow> (unit, 's) prog) \<Rightarrow> 'a list \<Rightarrow> (unit, 's) prog" where
  "for_each body [] = ret ()"
| "for_each body (x # xs) = bind (body x) (\<lambda>_. for_each body xs)"

text \<open>The same sequencing for code that has no state.\<close>

definition bindE :: "error + 'a \<Rightarrow> ('a \<Rightarrow> error + 'b) \<Rightarrow> error + 'b" where
  "bindE r f = (case r of Inl e \<Rightarrow> Inl e | Inr x \<Rightarrow> f x)"

section \<open>sources/source, sources/issues, sources/discourse: what a handler declares\<close>

text \<open>
  The static getters of a handler class, and what its constructor does when the manager
  calls it with a source entry: \<open>None\<close> when it returns, \<open>Some e\<close> when it throws.
\<close>

record handler_class =
  requiredColumns :: "string list"
  requiredConfig :: "string list"
  managedColumns :: "string list"
  construct :: "jsval \<Rightarrow> error option"

definition Source :: handler_class where
  "Source = \<lparr> requiredColumns = [], requiredConfig = [''columns''], managedColumns = [],
     construct = (\<lambda>_. None) \<rparr>"

definition IssuesSource :: handler_class where
  "IssuesSource = Source \<lparr> requiredColumns := [''target''] \<rparr>"

text \<open>
  The constructor of \<open>DiscourseSource\<close> asks the account manager for the account, which is
  not part of these sources: \<open>getAccount\<close> is its outcome for an entry.
\<close>

definition DiscourseSource :: "(jsval \<Rightarrow> error option) \<Rightarrow> handler_class" where
  "DiscourseSource getAccount = Source \<lparr>
     requiredColumns := [''target''],
     requiredConfig := requiredConfig Source @ [''accountName''],
     construct := getAccount \<rparr>"

section \<open>sources/manager: SourceManager\<close>

text \<open>
  \<^verbatim>\<open>new SourceLoadError(message, sourceType)\<close>.
\<close>

definition new_SourceLoadError :: "string \<Rightarrow> jsval \<Rightarrow> error" where
  "new_SourceLoadError message sourceType =
     SourceLoadError (''Error when reading configuration for source '' @ to_string sourceType
                      @ '': '' @ message) sourceType"

definition NOT_SOURCES :: "string list" where
  "NOT_SOURCES = [''manager'', ''source'']"

text \<open>
  \<open>modules\<close> is \<^verbatim>\<open>require\<close> on \<^verbatim>\<open>./${sourceType}\<close>: the handler class of the module, or
  \<open>None\<close> when there is no such module and \<^verbatim>\<open>require\<close> throws. The map
  \<^verbatim>\<open>sourceFactories\<close> only keeps what \<^verbatim>\<open>require\<close> returned, and \<^verbatim>\<open>require\<close> returns the
  same class for the same name, so the model reads \<open>modules\<close> each time.
\<close>

definition getSourceFactory :: "(string \<Rightarrow> handler_class option) \<Rightarrow> jsval \<Rightarrow> error + handler_class" where
  "getSourceFactory modules sourceType =
     (if sourceType \<in> set (map Str NOT_SOURCES)
      then Inl (new_SourceLoadError ''It is not a source.'' Undefined)
      else (case modules (to_string sourceType) of
              None \<Rightarrow> Inl (Rejected ''Cannot find module'')
            | Some factory \<Rightarrow> Inr factory))"

text \<open>\<^verbatim>\<open>required.every((c) => c in config)\<close> stops at the first key that is missing.\<close>

fun every_in :: "string list \<Rightarrow> jsval \<Rightarrow> error + bool" where
  "every_in [] config = Inr True"
| "every_in (c # cs) config =
     bindE (in_op c config) (\<lambda>b. if b then every_in cs config else Inr False)"

definition checkConfigArray :: "string list \<Rightarrow> jsval \<Rightarrow> error + bool" where
  "checkConfigArray required config =
     (if required = [] then Inr True else every_in required config)"

text \<open>\<^verbatim>\<open>required.filter((c) => !(c in config))\<close>.\<close>

fun missingConfig :: "string list \<Rightarrow> jsval \<Rightarrow> error + string list" where
  "missingConfig [] config = Inr []"
| "missingConfig (c # cs) config =
     bindE (in_op c config) (\<lambda>b.
     bindE (missingConfig cs config) (\<lambda>rest.
       Inr (if \<not> b then c # rest else rest)))"

definition checkSourceConfig :: "(string \<Rightarrow> handler_class option) \<Rightarrow> jsval \<Rightarrow> error + bool" where
  "checkSourceConfig modules sourceConfig =
     bindE (get_prop sourceConfig ''type'') (\<lambda>type.
     bindE (getSourceFactory modules type) (\<lambda>Src.
     bindE (checkConfigArray (requiredConfig Src) sourceConfig) (\<lambda>a.
       if a then
         bindE (get_prop sourceConfig ''columns'') (\<lambda>columns.
           checkConfigArray (requiredColumns Src) columns)
       else Inr False)))"

text \<open>
  The fields of the manager that its constructor fills: \<open>sources\<close> holds the handlers
  instantiated so far (each one a new object, given by its type and its entry),
  \<open>managed\<close> is the set \<^verbatim>\<open>managedColumns\<close> in insertion order.
\<close>

record manager =
  sources :: "(jsval \<times> jsval) list"
  managed :: "jsval list"

definition set_add :: "jsval \<Rightarrow> jsval list \<Rightarrow> jsval list" where
  "set_add v vs = (if v \<in> set vs then vs else vs @ [v])"

definition add_managed :: "jsval \<Rightarrow> string \<Rightarrow> (unit, manager) prog" where
  "add_managed s c =
     bind (lift (get_prop s ''columns'')) (\<lambda>columns.
     bind (lift (get_prop columns c)) (\<lambda>name.
       (\<lambda>m. (Inr (), m \<lparr> managed := set_add name (managed m) \<rparr>))))"

text \<open>The body of the loop over \<^verbatim>\<open>config.sources\<close>.\<close>

definition load_source :: "(string \<Rightarrow> handler_class option) \<Rightarrow> jsval \<Rightarrow> (unit, manager) prog" where
  "load_source modules s =
     bind (lift (get_prop s ''type'')) (\<lambda>type.
     bind (lift (getSourceFactory modules type)) (\<lambda>Src.
     bind (lift (checkSourceConfig modules s)) (\<lambda>ok.
       if ok then
         bind (lift (case construct Src s of Some e \<Rightarrow> Inl e | None \<Rightarrow> Inr ())) (\<lambda>_.
         bind (\<lambda>m. (Inr (), m \<lparr> sources := sources m @ [(type, s)] \<rparr>)) (\<lambda>_.
           if managedColumns Src \<noteq> [] then for_each (add_managed s) (managedColumns Src)
           else ret ()))
       else
         bind (lift (missingConfig (requiredConfig Src) s)) (\<lambda>missing.
           if missing = [] then
             bind (lift (get_prop s ''columns'')) (\<lambda>columns.
             bind (lift (missingConfig (requiredColumns Src) columns)) (\<lambda>missingColumns.
               throw (new_SourceLoadError (''Missing column names: '' @ join missingColumns) type)))
           else
             throw (new_SourceLoadError
                      (''Missing the following config keys: '' @ join missing) type)))))"

text \<open>
  The constructor. \<open>config_sources\<close> is \<^verbatim>\<open>config.sources\<close>: \<open>None\<close> when it is not an
  array. The result is what the constructor throws, if anything, and the fields of the
  manager at that moment.
\<close>

definition new_SourceManager ::
  "(string \<Rightarrow> handler_class option) \<Rightarrow> jsval list option \<Rightarrow> (error + unit) \<times> manager" where
  "new_SourceManager modules config_sources =
     (let this = \<lparr> sources = [], managed = [] \<rparr> in
      case config_sources of
        None \<Rightarrow> (Inr (), this)
      | Some srcs \<Rightarrow> if srcs \<noteq> [] then for_each (load_source modules) srcs this
                     else (Inr (), this))"

text \<open>
  For the statements about the manager: whether an object has a key, as an own property
  or as an inherited one, the required keys that it lacks, and a property read that gives
  \<^verbatim>\<open>undefined\<close> where the read throws.
\<close>

definition has_key :: "string \<Rightarrow> jsval \<Rightarrow> bool" where
  "has_key k v =
     (case v of Obj kvs \<Rightarrow> k \<in> set (map fst kvs) \<or> k \<in> set Object_prototype | _ \<Rightarrow> False)"

definition missing_keys :: "string list \<Rightarrow> jsval \<Rightarrow> string list" where
  "missing_keys required v = filter (\<lambda>k. \<not> has_key k v) required"

definition field :: "jsval \<Rightarrow> string \<Rightarrow> jsval" where
  "field v k = (case get_prop v k of Inl _ \<Rightarrow> Undefined | Inr x \<Rightarrow> x)"

text \<open>
  A module table for examples: \<open>issues\<close> and \<open>discourse\<close> as declared in their modules,
  and \<open>publish\<close> with the declarations that its test file checks (two required columns
  \<open>target\<close> and \<open>source\<close>, one managed column \<open>target\<close>).
\<close>

definition example_modules :: "string \<Rightarrow> handler_class option" where
  "example_modules name =
     (if name = ''issues'' then Some IssuesSource
      else if name = ''discourse'' then Some (DiscourseSource (\<lambda>_. None))
      else if name = ''publish'' then Some (Source \<lparr> requiredColumns := [''target'', ''source''], managedColumns := [''target''] \<rparr>)
      else None)"

section \<open>sources/issues: IssuesSource\<close>

text \<open>
  The board, its columns, the cards and the repository are collaborators that these
  sources only call. A collaborator is the record of its answers: \<open>Inl e\<close> (or \<open>Some e\<close>
  where there is no value to return) is a promise that rejects with \<open>e\<close>. Within one call
  of a method below, every collaborator method is called at most once for given
  arguments, and all reads come before the one call that changes the board, so that an
  answer that does not depend on earlier calls loses nothing.
\<close>

record issue =
  issue_number :: nat
  issue_id :: nat

record card =
  card_id :: nat
  reportError :: "string \<Rightarrow> error \<Rightarrow> error option"

record column =
  col_id :: nat
  hasIssue :: "nat \<Rightarrow> error + bool"
  getCard :: "nat \<Rightarrow> error + card option"
  removeCard :: "card \<Rightarrow> error option"

text \<open>
  \<open>columns\<close> is the object from column id to column, as the list of its entries in the
  order in which \<^verbatim>\<open>Object.values\<close> goes through them; an entry may hold no column.
  \<open>columnIds\<close> is the object from column name to column id.
\<close>

record board =
  ready :: "error option"
  columns :: "error + (nat \<times> column option) list"
  columnIds :: "error + (string \<times> nat) list"
  addCard :: "issue \<Rightarrow> column option \<Rightarrow> error + card"

record repo =
  issues :: "error + issue list"
  closedIssues :: "error + issue list"

text \<open>
  The fields that the constructor of \<open>Source\<close> stores. \<open>getManagedColumns\<close> is the answer
  of the callback; an element is \<open>None\<close> where the manager's lookup
  \<^verbatim>\<open>columns[columnIds[name]]\<close> found nothing.
\<close>

record source =
  src_repo :: repo
  src_board :: board
  src_config :: jsval
  getManagedColumns :: "error + column option list"

text \<open>
  The calls that a method makes on its collaborators, in order, and what it writes with
  \<^verbatim>\<open>console.error\<close>. This trace is the state of the programs below.
\<close>

datatype event =
    HasIssue column nat
  | AddCard issue "column option"
  | RemoveCard column card
  | ReportError card string error
  | ConsoleError string nat error

definition call_hasIssue :: "column \<Rightarrow> nat \<Rightarrow> (bool, event list) prog" where
  "call_hasIssue c n = (\<lambda>t. (hasIssue c n, t @ [HasIssue c n]))"

definition call_addCard :: "board \<Rightarrow> issue \<Rightarrow> column option \<Rightarrow> (card, event list) prog" where
  "call_addCard b i c = (\<lambda>t. (addCard b i c, t @ [AddCard i c]))"




text \<open>
  \<open>Source.getColumn\<close>. A name that is not a key of \<open>columnIds\<close>, or an id that is not a key
  of \<open>columns\<close>, gives \<^verbatim>\<open>undefined\<close>, here \<open>None\<close>. Of the two promises under
  \<^verbatim>\<open>Promise.all\<close>, the failure of the first is the one reported when both fail.
\<close>

definition getColumn :: "source \<Rightarrow> string \<Rightarrow> error + column option" where
  "getColumn this columnKey =
     bindE (case ready (src_board this) of Some e \<Rightarrow> Inl e | None \<Rightarrow> Inr ()) (\<lambda>_.
     bindE (columns (src_board this)) (\<lambda>cols.
     bindE (columnIds (src_board this)) (\<lambda>ids.
     bindE (get_prop (src_config this) ''columns'') (\<lambda>names.
     bindE (get_prop names columnKey) (\<lambda>name.
       Inr (case map_of ids (to_string name) of
              None \<Rightarrow> None
            | Some i \<Rightarrow> (case map_of cols i of None \<Rightarrow> None | Some c \<Rightarrow> c)))))))"

text \<open>\<^verbatim>\<open>managed.every((c) => c.id !== column.id)\<close>; \<^verbatim>\<open>c.id\<close> throws on \<^verbatim>\<open>undefined\<close>.\<close>

fun every_other_id :: "column option list \<Rightarrow> column \<Rightarrow> error + bool" where
  "every_other_id [] column = Inr True"
| "every_other_id (None # cs) column = Inl TypeError"
| "every_other_id (Some c # cs) column =
     (if col_id c \<noteq> col_id column then every_other_id cs column else Inr False)"

text \<open>
  The loop of \<open>handleCard\<close>; the result is the column of the \<^verbatim>\<open>return\<close> inside, if any.
  In \<open>handleCard\<close> the columns and the managed columns are awaited together before the
  loop; as in \<open>getColumn\<close>, the failure of the first is the one reported when both fail.
\<close>

fun handleCard_loop ::
  "column option list \<Rightarrow> issue \<Rightarrow> column option list \<Rightarrow> (column option, event list) prog" where
  "handleCard_loop mgd i [] = ret None"
| "handleCard_loop mgd i (None # rest) = handleCard_loop mgd i rest"
| "handleCard_loop mgd i (Some column # rest) =
     bind (lift (every_other_id mgd column)) (\<lambda>other.
       if other then
         bind (call_hasIssue column (issue_number i)) (\<lambda>has.
           if has then ret (Some column) else handleCard_loop mgd i rest)
       else handleCard_loop mgd i rest)"

definition handleCard :: "source \<Rightarrow> issue \<Rightarrow> (column option, event list) prog" where
  "handleCard this i =
     bind (lift (columns (src_board this))) (\<lambda>cols.
     bind (lift (getManagedColumns this)) (\<lambda>mgd.
       handleCard_loop mgd i (map snd cols)))"

text \<open>The loop of \<open>addIssue\<close>: the first column that has the issue, if any.\<close>

fun addIssue_loop :: "issue \<Rightarrow> column option list \<Rightarrow> (column option, event list) prog" where
  "addIssue_loop i [] = ret None"
| "addIssue_loop i (None # rest) = addIssue_loop i rest"
| "addIssue_loop i (Some column # rest) =
     bind (call_hasIssue column (issue_number i)) (\<lambda>has.
       if has then ret (Some column) else addIssue_loop i rest)"

text \<open>The result \<open>None\<close> is \<^verbatim>\<open>undefined\<close>: the method ends without a \<^verbatim>\<open>return\<close>.\<close>

definition addIssue :: "source \<Rightarrow> issue \<Rightarrow> bool \<Rightarrow> (card option, event list) prog" where
  "addIssue this i isClosed =
     bind (lift (columns (src_board this))) (\<lambda>cols.
     bind (addIssue_loop i (map snd cols)) (\<lambda>found.
       case found of
         Some column \<Rightarrow>
           bind (call_addCard (src_board this) i (Some column)) (\<lambda>cd. ret (Some cd))
       | None \<Rightarrow>
           if \<not> isClosed then
             bind (lift (getColumn this ''target'')) (\<lambda>ideas.
             bind (call_addCard (src_board this) i ideas) (\<lambda>cd. ret (Some cd)))
           else ret None))"



text \<open>
  For the statements about the handler: the columns that the board holds, a column whose
  id is not the id of a managed column, the columns that a scan asks (up to the first
  hit), and a column that answers that it has the issue.
\<close>

fun present :: "column option list \<Rightarrow> column list" where
  "present [] = []"
| "present (None # cs) = present cs"
| "present (Some c # cs) = c # present cs"

definition unmanaged :: "column list \<Rightarrow> column \<Rightarrow> bool" where
  "unmanaged mcols c \<longleftrightarrow> col_id c \<notin> set (map col_id mcols)"

fun scan_until :: "('a \<Rightarrow> bool) \<Rightarrow> 'a list \<Rightarrow> 'a list" where
  "scan_until P [] = []"
| "scan_until P (x # xs) = (if P x then [x] else x # scan_until P xs)"

definition has :: "issue \<Rightarrow> column \<Rightarrow> bool" where
  "has i c \<longleftrightarrow> hasIssue c (issue_number i) = Inr True"

text \<open>
  The column that the board holds under a configured name: the name gives the column id
  in \<open>columnIds\<close>, the id gives the column in \<open>columns\<close>; \<open>None\<close> where either is missing.
\<close>

definition column_named :: "(nat \<times> column option) list \<Rightarrow> (string \<times> nat) list \<Rightarrow> jsval \<Rightarrow> column option" where
  "column_named cols ids name =
     (case map_of ids (to_string name) of
        None \<Rightarrow> None
      | Some k \<Rightarrow> (case map_of cols k of None \<Rightarrow> None | Some c \<Rightarrow> c))"

text \<open>Collaborators for examples.\<close>

definition card7 :: card where
  "card7 = \<lparr> card_id = 70, reportError = (\<lambda>_ _. None) \<rparr>"

definition colM :: column where
  "colM = \<lparr> col_id = 1, hasIssue = (\<lambda>_. Inr True), getCard = (\<lambda>_. Inr None),
     removeCard = (\<lambda>_. None) \<rparr>"

definition colA :: column where
  "colA = \<lparr> col_id = 3, hasIssue = (\<lambda>_. Inr False), getCard = (\<lambda>_. Inr None),
     removeCard = (\<lambda>_. None) \<rparr>"

definition colB :: column where
  "colB = \<lparr> col_id = 4, hasIssue = (\<lambda>n. Inr (n = 7)),
     getCard = (\<lambda>i. Inr (if i = 700 then Some card7 else None)),
     removeCard = (\<lambda>_. Some (Rejected ''locked'')) \<rparr>"

definition colC :: column where
  "colC = \<lparr> col_id = 5, hasIssue = (\<lambda>n. Inr (n = 7)), getCard = (\<lambda>_. Inr None),
     removeCard = (\<lambda>_. None) \<rparr>"

definition colD :: column where
  "colD = \<lparr> col_id = 6, hasIssue = (\<lambda>_. Inr True),
     getCard = (\<lambda>_. Inl (Rejected ''offline'')), removeCard = (\<lambda>_. None) \<rparr>"

definition issue7 :: issue where
  "issue7 = \<lparr> issue_number = 7, issue_id = 700 \<rparr>"

definition issue8 :: issue where
  "issue8 = \<lparr> issue_number = 8, issue_id = 800 \<rparr>"

definition example_board :: "(nat \<times> column option) list \<Rightarrow> board" where
  "example_board cols = \<lparr> ready = None, columns = Inr cols,
     columnIds = Inr [(''Done'', 1), (''Ideas'', 3), (''Queue'', 4), (''Later'', 5)],
     addCard = (\<lambda>i c. Inr \<lparr> card_id = 10 * issue_number i, reportError = (\<lambda>_ _. None) \<rparr>) \<rparr>"

definition example_source :: "(nat \<times> column option) list \<Rightarrow> error + column option list \<Rightarrow> source" where
  "example_source cols mgd = \<lparr>
     src_repo = \<lparr> issues = Inr [issue8], closedIssues = Inr [issue7] \<rparr>,
     src_board = example_board cols,
     src_config = Obj [(''type'', Str ''issues''), (''columns'', Obj [(''target'', Str ''Ideas'')])],
     getManagedColumns = mgd \<rparr>"

section \<open>data-store: the expiring single-flight cache\<close>

text \<open>
  Modelled from the spec: the module \<^verbatim>\<open>lib/data-store\<close> is not among the sources, only its
  test file is. The cache entry of the spec's data model, with the cache lifetime given
  to the constructor. \<open>lastUpdateTimestamp\<close> is \<open>None\<close> as long as no fetch has completed.
  A future is named by the number of the fetch invocation that returned it; \<open>fetches\<close>
  lists the argument (the data of that moment) of every invocation of the fetch function,
  \<open>outcomes\<close> the futures that have settled, with their value or failure.
\<close>

record 'a cache =
  data :: "'a option"
  lastUpdateTimestamp :: "int option"
  pendingFetch :: "nat option"
  cacheTime :: int
  fetches :: "'a option list"
  outcomes :: "(nat \<times> (error + 'a)) list"

text \<open>
  Modelled from the spec: the constructor of the cache leaves it empty, with no fetch made.
\<close>

definition new_DataStore :: "int \<Rightarrow> 'a cache" where
  "new_DataStore ct = \<lparr> data = None, lastUpdateTimestamp = None, pendingFetch = None,
     cacheTime = ct, fetches = [], outcomes = [] \<rparr>"

text \<open>
  Modelled from the spec: \<open>cacheExpired\<close> is ``true if no fetch has ever completed, or if
  \<open>now - lastUpdateTimestamp >= cacheTime\<close>''.
\<close>

definition cacheExpired :: "int \<Rightarrow> 'a cache \<Rightarrow> bool" where
  "cacheExpired now c =
     (case lastUpdateTimestamp c of None \<Rightarrow> True | Some ts \<Rightarrow> now - ts \<ge> cacheTime c)"

text \<open>
  Modelled from the spec: what \<open>getData\<close> hands to its caller, ``that same pending future''
  of a fetch or ``the cached value immediately''.
\<close>

datatype 'a reply = Pending nat | Ready "'a option"

text \<open>
  Modelled from the spec: \<open>getData\<close>. ``If a fetch is already in flight, returns that same
  pending future. Else, if cache is not expired, returns the cached value immediately
  without invoking fetch. Else, starts a fetch by invoking \<open>fetch(currentData)\<close>, stores the
  returned future as in-flight''.
\<close>

definition getData :: "int \<Rightarrow> 'a cache \<Rightarrow> 'a reply \<times> 'a cache" where
  "getData now c =
     (case pendingFetch c of
        Some f \<Rightarrow> (Pending f, c)
      | None \<Rightarrow>
          if \<not> cacheExpired now c then (Ready (data c), c)
          else (let f = length (fetches c) in
                (Pending f, c \<lparr> pendingFetch := Some f, fetches := fetches c @ [data c] \<rparr>)))"

text \<open>
  Modelled from the spec: the fetch in flight completes. ``On successful completion stores
  the result as the new cached value and timestamp, clearing the in-flight marker; on
  failure, clears the in-flight marker (without updating data or timestamp) and propagates
  the failure to all current awaiters''. With no fetch in flight nothing completes.
\<close>

definition fetch_resolved :: "int \<Rightarrow> 'a \<Rightarrow> 'a cache \<Rightarrow> 'a cache" where
  "fetch_resolved now v c =
     (case pendingFetch c of
        None \<Rightarrow> c
      | Some f \<Rightarrow> c \<lparr> data := Some v, lastUpdateTimestamp := Some now, pendingFetch := None,
                     outcomes := outcomes c @ [(f, Inr v)] \<rparr>)"

text \<open>
  Modelled from the spec: the failure of the fetch in flight, ``without updating data or
  timestamp''.
\<close>

definition fetch_rejected :: "error \<Rightarrow> 'a cache \<Rightarrow> 'a cache" where
  "fetch_rejected e c =
     (case pendingFetch c of
        None \<Rightarrow> c
      | Some f \<Rightarrow> c \<lparr> pendingFetch := None, outcomes := outcomes c @ [(f, Inl e)] \<rparr>)"

text \<open>
  Modelled from the spec: what a caller that awaits its reply has got, the value or the
  failure of the fetch for ``all current awaiters'' of its future, and nothing yet (\<open>None\<close>)
  while the future is outstanding.
\<close>

definition await :: "'a cache \<Rightarrow> 'a reply \<Rightarrow> (error + 'a option) option" where
  "await c r =
     (case r of
        Ready d \<Rightarrow> Some (Inr d)
      | Pending f \<Rightarrow> (case map_of (outcomes c) f of
                       None \<Rightarrow> None
                     | Some (Inl e) \<Rightarrow> Some (Inl e)
                     | Some (Inr v) \<Rightarrow> Some (Inr (Some v))))"

text \<open>
  Modelled from the spec: the life of a cache under the cooperative scheduling of the
  spec's section 5, calls of \<open>getData\<close> and completions of the fetch in flight, each at
  its time, in any order. \<open>run\<close> gives the replies of the calls and the cache at the end.
\<close>

datatype 'a action = GetData int | Resolve int 'a | Reject error

fun run :: "'a action list \<Rightarrow> 'a cache \<Rightarrow> 'a reply list \<times> 'a cache" where
  "run [] c = ([], c)"
| "run (GetData now # as) c =
     (let (r, c') = getData now c; (rs, c'') = run as c' in (r # rs, c''))"
| "run (Resolve now v # as) c = run as (fetch_resolved now v c)"
| "run (Reject e # as) c = run as (fetch_rejected e c)"

text \<open>
  Modelled from the spec: the outstanding fetches of the invariant ``at most one
  outstanding fetch at a time'', the futures that a fetch handed out and that have not
  settled.
\<close>

definition outstanding :: "'a cache \<Rightarrow> nat list" where
  "outstanding c = filter (\<lambda>f. map_of (outcomes c) f = None) [0 ..< length (fetches c)]"

text \<open>
  What holds of the modelled cache in every state it reaches: a settled future was handed
  out by a fetch, the future in flight has not settled, and every other future has.
\<close>

definition cache_inv :: "'a cache \<Rightarrow> bool" where
  "cache_inv c \<longleftrightarrow>
     (\<forall>f. map_of (outcomes c) f \<noteq> None \<longrightarrow> f < length (fetches c)) \<and>
     (case pendingFetch c of
        None \<Rightarrow> \<forall>f < length (fetches c). map_of (outcomes c) f \<noteq> None
      | Some p \<Rightarrow> p < length (fetches c) \<and> map_of (outcomes c) p = None
           \<and> (\<forall>f < length (fetches c). f \<noteq> p \<longrightarrow> map_of (outcomes c) f \<noteq> None))"

section \<open>sources/publish: the quota of the scheduled publish handler\<close>

text \<open>
  Modelled from the spec: the module \<^verbatim>\<open>lib/sources/publish\<close> is not among the sources, only
  its test file is. ``\<open>toUTCTimestamp(hour, minute)\<close> = today at 00:00 UTC +
  \<open>hour*3600000 + minute*60000\<close> milliseconds''. Times are milliseconds since the epoch.
\<close>

definition toUTCTimestamp :: "int \<Rightarrow> int \<Rightarrow> int \<Rightarrow> int" where
  "toUTCTimestamp now hour minute =
     (now - now mod 86400000) + hour * 3600000 + minute * 60000"

text \<open>
  Modelled from the spec: \<open>getCurrentQuota\<close> ``returns \<open>Infinity\<close> if \<open>schedule\<close> is empty.
  Otherwise counts schedule entries whose resolved timestamp-for-today is \<open><= now\<close> and
  strictly greater than the handler's \<open>lastUpdate\<close> timestamp''. A schedule token
  \<^verbatim>\<open>"H:M"\<close> is the pair of its hour and its minute.
\<close>

definition getCurrentQuota :: "(int \<times> int) list \<Rightarrow> int \<Rightarrow> int \<Rightarrow> enat" where
  "getCurrentQuota schedule lastUpdate now =
     (if schedule = [] then \<infinity>
      else enat (length (filter
             (\<lambda>(hour, minute). toUTCTimestamp now hour minute \<le> now
                 \<and> lastUpdate < toUTCTimestamp now hour minute) schedule)))"

section \<open>accounts/twitter: getMediaAndContent\<close>

text \<open>
  A JavaScript string is a sequence of UTF-16 code units; \<open>utf16\<close> embeds an ASCII literal.
\<close>

type_synonym jsstring = "nat list"

definition utf16 :: "string \<Rightarrow> jsstring" where
  "utf16 s = map of_char s"

text \<open>
  \<^verbatim>\<open>String.prototype.trim\<close> removes white space and line terminators from both ends:
  TAB, LF, VT, FF, CR, SP, NBSP, U+1680, U+2000..U+200A, LS, PS, U+202F, U+205F, U+3000
  and the byte order mark.
\<close>

definition is_ws :: "nat \<Rightarrow> bool" where
  "is_ws c \<longleftrightarrow> c \<in> {9, 10, 11, 12, 13, 32, 160, 5760, 8232, 8233, 8239, 8287, 12288, 65279}
     \<or> (8192 \<le> c \<and> c \<le> 8202)"

definition trim :: "jsstring \<Rightarrow> jsstring" where
  "trim s = rev (dropWhile is_ws (rev (dropWhile is_ws s)))"

text \<open>
  The regular expression \<^verbatim>\<open>!\[[^\]]*\]\(([^)]+)\)\<close> tried at the head of \<open>s\<close>.
  The code units are \<open>!\<close> = 33, \<open>[\<close> = 91, \<open>]\<close> = 93, \<open>(\<close> = 40, \<open>)\<close> = 41.
  \<^verbatim>\<open>[^\]]*\<close> is greedy and cannot run over a \<open>]\<close>, and the next item must be a
  \<open>]\<close>, so backtracking into a shorter run never helps: the run is the longest one.
  The same holds for \<^verbatim>\<open>[^)]+\<close>, which must take at least one unit. The result is the
  captured group (the URL) and what follows the match.
\<close>

definition expect :: "jsstring \<Rightarrow> jsstring \<Rightarrow> jsstring option" where
  "expect lit s = (if take (length lit) s = lit then Some (drop (length lit) s) else None)"

definition match_image :: "jsstring \<Rightarrow> (jsstring \<times> jsstring) option" where
  "match_image s =
     (case expect [33, 91] s of
        None \<Rightarrow> None
      | Some r \<Rightarrow>
          (case expect [93, 40] (dropWhile (\<lambda>c. c \<noteq> 93) r) of
             None \<Rightarrow> None
           | Some r2 \<Rightarrow>
               (let url = takeWhile (\<lambda>c. c \<noteq> 41) r2 in
                if url = [] then None
                else (case expect [41] (dropWhile (\<lambda>c. c \<noteq> 41) r2) of
                        None \<Rightarrow> None
                      | Some rest \<Rightarrow> Some (url, rest)))))"

text \<open>
  \<^verbatim>\<open>tweet.search(re)\<close>: the index of the leftmost match, or \<open>-1\<close>.
\<close>

fun search :: "jsstring \<Rightarrow> int" where
  "search [] = (if match_image [] = None then - 1 else 0)"
| "search (c # cs) =
     (if match_image (c # cs) \<noteq> None then 0
      else (let r = search cs in if r = - 1 then - 1 else r + 1))"

lemma expect_shorter: "expect lit s = Some r \<Longrightarrow> length r \<le> length s"
  by (auto simp: expect_def split: if_splits)

lemma expect_nonempty_shorter: "lit \<noteq> [] \<Longrightarrow> expect lit s = Some r \<Longrightarrow> length r < length s"
  by (cases s) (auto simp: expect_def split: if_splits)

lemma match_image_shorter:
  assumes "match_image s = Some (url, rest)"
  shows "length rest < length s"
proof -
  from assms obtain r r2 where
    r: "expect [33, 91] s = Some r" and
    r2: "expect [93, 40] (dropWhile (\<lambda>c. c \<noteq> 93) r) = Some r2" and
    rest: "expect [41] (dropWhile (\<lambda>c. c \<noteq> 41) r2) = Some rest"
    by (auto simp: match_image_def Let_def split: option.splits if_splits)
  have "length rest \<le> length (dropWhile (\<lambda>c. c \<noteq> 41) r2)"
    using rest by (rule expect_shorter)
  also have "\<dots> \<le> length r2" by (rule length_dropWhile_le)
  also have "\<dots> \<le> length (dropWhile (\<lambda>c. c \<noteq> 93) r)"
    using r2 by (rule expect_shorter)
  also have "\<dots> \<le> length r" by (rule length_dropWhile_le)
  also have "\<dots> < length s"
    using r by (intro expect_nonempty_shorter[of "[33, 91]"]) auto
  finally show ?thesis .
qed

text \<open>
  \<^verbatim>\<open>tweet.replace(re, (match, url) => { media.push(url); return ''; })\<close> with the global
  flag: the matches are found from left to right, each search resuming where the last
  match ended; every match is replaced by the empty string and its group is pushed.
  The result is the pair of the new string and \<open>media\<close>.
\<close>

function replace_images :: "jsstring \<Rightarrow> jsstring \<times> jsstring list" where
  "replace_images [] = ([], [])"
| "replace_images (c # cs) =
     (case match_image (c # cs) of
        Some (url, rest) \<Rightarrow> (let (p, media) = replace_images rest in (p, url # media))
      | None \<Rightarrow> (let (p, media) = replace_images cs in (c # p, media)))"
  by pat_completeness auto
termination
  by (relation "measure length") (auto dest: match_image_shorter)

definition getMediaAndContent :: "jsstring \<Rightarrow> error + (jsstring \<times> jsstring list)" where
  "getMediaAndContent tweet =
     (if search tweet \<noteq> - 1 then
        (let (pureTweet, media) = replace_images tweet in
         if length media > 4 then Inl (JsError ''Can not upload more than 4 images per tweet'')
         else Inr (trim pureTweet, media))
      else Inr (trim tweet, []))"

section \<open>Properties of getMediaAndContent\<close>

lemma match_image_Nil: "match_image [] = None"
  by (simp add: match_image_def expect_def)

lemma search_ge: "search s \<ge> - 1"
  by (induction s) (auto simp: Let_def match_image_Nil)

lemma search_none_iff: "search s = - 1 \<longleftrightarrow> (\<forall>i. match_image (drop i s) = None)"
proof (induction s)
  case Nil
  then show ?case by (simp add: match_image_Nil)
next
  case (Cons c cs)
  have ge: "search cs \<ge> - 1" by (rule search_ge)
  show ?case
  proof
    assume a: "search (c # cs) = - 1"
    then have m: "match_image (c # cs) = None" and s: "search cs = - 1"
      using ge by (cases "match_image (c # cs)"; auto simp: Let_def split: if_splits)+
    show "\<forall>i. match_image (drop i (c # cs)) = None"
    proof
      fix i show "match_image (drop i (c # cs)) = None"
        using m s Cons.IH by (cases i) auto
    qed
  next
    assume a: "\<forall>i. match_image (drop i (c # cs)) = None"
    then have "match_image (drop 0 (c # cs)) = None" by blast
    then have m: "match_image (c # cs) = None" by simp
    have "\<forall>i. match_image (drop i cs) = None"
    proof
      fix i from a have "match_image (drop (Suc i) (c # cs)) = None" by blast
      then show "match_image (drop i cs) = None" by simp
    qed
    then have "search cs = - 1" using Cons.IH by simp
    with m show "search (c # cs) = - 1" by simp
  qed
qed

lemma replace_images_no_match:
  "search s = - 1 \<Longrightarrow> replace_images s = (s, [])"
proof (induction s)
  case Nil
  then show ?case by simp
next
  case (Cons c cs)
  have ge: "search cs \<ge> - 1" by (rule search_ge)
  from Cons.prems have m: "match_image (c # cs) = None" and s: "search cs = - 1"
    using ge by (cases "match_image (c # cs)"; auto simp: Let_def split: if_splits)+
  then show ?case using Cons.IH by simp
qed

lemma replace_images_media_Nil:
  "snd (replace_images s) = [] \<Longrightarrow> search s = - 1"
proof (induction s rule: replace_images.induct)
  case 1
  then show ?case by (simp add: match_image_Nil)
next
  case (2 c cs)
  show ?case
  proof (cases "match_image (c # cs)")
    case None
    with 2 show ?thesis by (auto simp: Let_def split: prod.splits)
  next
    case (Some a)
    with "2.prems" show ?thesis by (auto simp: Let_def split: prod.splits)
  qed
qed

lemma expect_Some_iff: "expect lit s = Some r \<longleftrightarrow> s = lit @ r"
  by (auto simp: expect_def) (metis append_eq_conv_conj)+

lemma match_image_iff:
  "match_image s = Some (url, rest) \<longleftrightarrow>
     (\<exists>alt. s = [33, 91] @ alt @ [93, 40] @ url @ [41] @ rest
        \<and> 93 \<notin> set alt \<and> url \<noteq> [] \<and> 41 \<notin> set url)"
proof
  assume "match_image s = Some (url, rest)"
  then obtain r r2 where
    r: "expect [33, 91] s = Some r" and
    r2: "expect [93, 40] (dropWhile (\<lambda>c. c \<noteq> 93) r) = Some r2" and
    u: "url = takeWhile (\<lambda>c. c \<noteq> 41) r2" "url \<noteq> []" and
    rest: "expect [41] (dropWhile (\<lambda>c. c \<noteq> 41) r2) = Some rest"
    by (auto simp: match_image_def Let_def split: option.splits if_splits)
  define alt where "alt = takeWhile (\<lambda>c. c \<noteq> 93) r"
  have "r = alt @ dropWhile (\<lambda>c. c \<noteq> 93) r"
    by (simp add: alt_def)
  moreover have "dropWhile (\<lambda>c. c \<noteq> 93) r = [93, 40] @ r2"
    using r2 by (simp add: expect_Some_iff)
  moreover have "r2 = url @ dropWhile (\<lambda>c. c \<noteq> 41) r2"
    by (simp add: u)
  moreover have "dropWhile (\<lambda>c. c \<noteq> 41) r2 = [41] @ rest"
    using rest by (simp add: expect_Some_iff)
  moreover have "s = [33, 91] @ r"
    using r by (simp add: expect_Some_iff)
  ultimately have "s = [33, 91] @ alt @ [93, 40] @ url @ [41] @ rest"
    by simp
  moreover have "93 \<notin> set alt"
    unfolding alt_def by (auto dest: set_takeWhileD)
  moreover have "41 \<notin> set url"
    unfolding u by (auto dest: set_takeWhileD)
  ultimately show "\<exists>alt. s = [33, 91] @ alt @ [93, 40] @ url @ [41] @ rest
        \<and> 93 \<notin> set alt \<and> url \<noteq> [] \<and> 41 \<notin> set url"
    using u(2) by blast
next
  assume "\<exists>alt. s = [33, 91] @ alt @ [93, 40] @ url @ [41] @ rest
        \<and> 93 \<notin> set alt \<and> url \<noteq> [] \<and> 41 \<notin> set url"
  then obtain alt where s: "s = [33, 91] @ alt @ [93, 40] @ url @ [41] @ rest"
    and alt: "93 \<notin> set alt" and url: "url \<noteq> []" "41 \<notin> set url"
    by blast
  have 1: "expect [33, 91] s = Some (alt @ [93, 40] @ url @ [41] @ rest)"
    by (simp add: expect_Some_iff s)
  have 2: "dropWhile (\<lambda>c. c \<noteq> 93) (alt @ [93, 40] @ url @ [41] @ rest) = [93, 40] @ url @ [41] @ rest"
    using alt by (subst dropWhile_append2) auto
  have 3: "expect [93, 40] ([93, 40] @ url @ [41] @ rest) = Some (url @ [41] @ rest)"
    by (simp add: expect_Some_iff)
  have 4: "takeWhile (\<lambda>c. c \<noteq> 41) (url @ [41] @ rest) = url"
    using url by (subst takeWhile_append2) auto
  have 5: "dropWhile (\<lambda>c. c \<noteq> 41) (url @ [41] @ rest) = [41] @ rest"
    using url by (subst dropWhile_append2) auto
  have 6: "expect [41] ([41] @ rest) = Some rest"
    by (simp add: expect_Some_iff)
  show "match_image s = Some (url, rest)"
    unfolding match_image_def 1 option.case 2 3 Let_def 4 5 6 using url by simp
qed

lemma replace_images_match:
  "match_image s = Some (url, rest) \<Longrightarrow>
     replace_images s = (fst (replace_images rest), url # snd (replace_images rest))"
  by (cases s) (auto simp: match_image_Nil split: prod.splits)

lemma replace_images_skip:
  "match_image (c # cs) = None \<Longrightarrow>
     replace_images (c # cs) = (c # fst (replace_images cs), snd (replace_images cs))"
  by (auto split: prod.splits)

text \<open>
  The replacement is not scanned again: what stands around a removed reference can come
  together as a new one, which stays in the result.
\<close>

lemma getMediaAndContent_no_rescan:
  "getMediaAndContent (utf16 ''!![a](b)[c](d)'') = Inr (utf16 ''![c](d)'', [utf16 ''b''])"
  by (simp add: getMediaAndContent_def utf16_def match_image_def expect_def trim_def is_ws_def)

text \<open>
  C10. \<open>getMediaAndContent\<close> throws exactly when the global replace finds more than four
  image references. Otherwise it returns the content without the references, trimmed,
  and the captured URLs in the order of the matches. A content in which the pattern
  matches at no position comes back trimmed, with no media.
\<close>

theorem getMediaAndContent_images:
  "((\<exists>e. getMediaAndContent tweet = Inl e) \<longleftrightarrow> 4 < length (snd (replace_images tweet)))
   \<and> (length (snd (replace_images tweet)) \<le> 4 \<longrightarrow>
        getMediaAndContent tweet
          = Inr (trim (fst (replace_images tweet)), snd (replace_images tweet)))
   \<and> ((\<forall>i. match_image (drop i tweet) = None) \<longrightarrow>
        getMediaAndContent tweet = Inr (trim tweet, []))"
proof (cases "search tweet = - 1")
  case True
  then have r: "replace_images tweet = (tweet, [])"
    by (rule replace_images_no_match)
  from True have g: "getMediaAndContent tweet = Inr (trim tweet, [])"
    by (simp add: getMediaAndContent_def)
  show ?thesis by (simp add: g r)
next
  case False
  then have ex: "\<not> (\<forall>i. match_image (drop i tweet) = None)"
    by (simp add: search_none_iff)
  obtain p media where r: "replace_images tweet = (p, media)"
    by (cases "replace_images tweet")
  from False r have g: "getMediaAndContent tweet =
      (if length media > 4 then Inl (JsError ''Can not upload more than 4 images per tweet'')
       else Inr (trim p, media))"
    by (simp add: getMediaAndContent_def)
  show ?thesis using ex by (auto simp: g r)
qed

theorem getMediaAndContent_images_witness:
  "getMediaAndContent (utf16 '' x ![a](http://u) y ![](v) '')
     = Inr (utf16 ''x  y'', [utf16 ''http://u'', utf16 ''v''])
   \<and> getMediaAndContent (utf16 ''  hello ! [a](b)  '') = Inr (utf16 ''hello ! [a](b)'', [])
   \<and> (\<exists>e. getMediaAndContent (utf16 ''![](1)![](2)![](3)![](4)![](5)'') = Inl e)"
proof -
  let ?a = "utf16 '' x ![a](http://u) y ![](v) ''"
  let ?b = "utf16 ''  hello ! [a](b)  ''"
  let ?c = "utf16 ''![](1)![](2)![](3)![](4)![](5)''"
  have ra: "replace_images ?a = (utf16 '' x  y  '', [utf16 ''http://u'', utf16 ''v''])"
    by (simp add: utf16_def match_image_def expect_def)
  have ta: "trim (utf16 '' x  y  '') = utf16 ''x  y''"
    by (simp add: utf16_def trim_def is_ws_def)
  have sb: "search ?b = - 1"
    by (simp add: utf16_def match_image_def expect_def)
  have tb: "trim ?b = utf16 ''hello ! [a](b)''"
    by (simp add: utf16_def trim_def is_ws_def)
  have rc: "length (snd (replace_images ?c)) = 5"
    by (simp add: utf16_def match_image_def expect_def)
  have "getMediaAndContent ?a = Inr (utf16 ''x  y'', [utf16 ''http://u'', utf16 ''v''])"
    using getMediaAndContent_images [of ?a] by (simp add: ra ta)
  moreover have "getMediaAndContent ?b = Inr (utf16 ''hello ! [a](b)'', [])"
    using getMediaAndContent_images [of ?b] sb by (simp add: search_none_iff tb)
  moreover have "\<exists>e. getMediaAndContent ?c = Inl e"
    using getMediaAndContent_images [of ?c] by (simp add: rc)
  ultimately show ?thesis by blast
qed

section \<open>Properties of the SourceManager constructor\<close>

lemma bindE_simps [simp]:
  "bindE (Inl e) f = Inl e" "bindE (Inr x) f = f x"
  by (simp_all add: bindE_def)

lemma bind_simps:
  "bind (ret x) f s = f x s"
  "bind (throw e) f s = (Inl e, s)"
  "bind (lift (Inr x)) f s = f x s"
  "bind (lift (Inl e)) f s = (Inl e, s)"
  by (simp_all add: bind_def ret_def throw_def lift_def)

lemma for_each_append:
  "for_each body (xs @ ys) = bind (for_each body xs) (\<lambda>_. for_each body ys)"
proof (induction xs)
  case Nil
  show ?case by (simp add: bind_def ret_def)
next
  case (Cons x xs)
  show ?case
    by (simp add: Cons.IH) (auto simp: bind_def fun_eq_iff split: prod.splits sum.splits)
qed

lemma in_op_Obj: "in_op c (Obj kvs) = Inr (has_key c (Obj kvs))"
  by (simp add: has_key_def)

lemma every_in_Obj:
  "every_in required (Obj kvs) = Inr (\<forall>c \<in> set required. has_key c (Obj kvs))"
  by (induction required) (simp_all add: in_op_Obj del: in_op.simps)

lemma missingConfig_Obj:
  "missingConfig required (Obj kvs) = Inr (missing_keys required (Obj kvs))"
  by (induction required) (simp_all add: in_op_Obj missing_keys_def del: in_op.simps)

lemma every_in_not_Obj:
  "required \<noteq> [] \<Longrightarrow> \<forall>kvs. config \<noteq> Obj kvs \<Longrightarrow> every_in required config = Inl TypeError"
  by (cases required; cases config) auto


lemma checkConfigArray_False:
  assumes "checkConfigArray required config = Inr False"
  shows "missingConfig required config = Inr (missing_keys required config)
      \<and> missing_keys required config \<noteq> []"
proof (cases config)
  case (Obj kvs)
  with assms show ?thesis
    by (auto simp: checkConfigArray_def every_in_Obj missingConfig_Obj filter_empty_conv
        missing_keys_def split: if_splits)
qed (use assms in \<open>auto simp: checkConfigArray_def every_in_not_Obj missing_keys_def split: if_splits\<close>)

lemma checkConfigArray_True:
  assumes "checkConfigArray required config = Inr True"
  shows "missingConfig required config = Inr [] \<and> missing_keys required config = []"
proof (cases config)
  case (Obj kvs)
  with assms show ?thesis
    by (auto simp: checkConfigArray_def every_in_Obj missingConfig_Obj filter_empty_conv
        missing_keys_def split: if_splits)
qed (use assms in \<open>auto simp: checkConfigArray_def every_in_not_Obj missing_keys_def split: if_splits\<close>)


lemma load_source_invalid:
  assumes ty: "get_prop s ''type'' = Inr type"
    and cls: "getSourceFactory modules type = Inr Src"
    and bad: "checkSourceConfig modules s = Inr False"
  shows "load_source modules s m =
     (Inl (new_SourceLoadError
        (if missing_keys (requiredConfig Src) s \<noteq> []
         then ''Missing the following config keys: '' @ join (missing_keys (requiredConfig Src) s)
         else ''Missing column names: ''
                @ join (missing_keys (requiredColumns Src) (field s ''columns''))) type), m)"
proof -
  from bad have c: "bindE (checkConfigArray (requiredConfig Src) s) (\<lambda>a.
       if a then
         bindE (get_prop s ''columns'') (\<lambda>columns.
           checkConfigArray (requiredColumns Src) columns)
       else Inr False) = Inr False"
    by (simp add: checkSourceConfig_def ty cls)
  have l: "load_source modules s m =
     bind (lift (missingConfig (requiredConfig Src) s)) (\<lambda>missing.
           if missing = [] then
             bind (lift (get_prop s ''columns'')) (\<lambda>columns.
             bind (lift (missingConfig (requiredColumns Src) columns)) (\<lambda>missingColumns.
               throw (new_SourceLoadError (''Missing column names: '' @ join missingColumns) type)))
           else
             throw (new_SourceLoadError
                      (''Missing the following config keys: '' @ join missing) type)) m"
    by (simp add: load_source_def ty cls bad bind_simps)
  show ?thesis
  proof (cases "checkConfigArray (requiredConfig Src) s")
    case (Inl e)
    with c show ?thesis by simp
  next
    case (Inr a)
    show ?thesis
    proof (cases a)
      case False
      with Inr have "checkConfigArray (requiredConfig Src) s = Inr False" by simp
      from checkConfigArray_False [OF this] show ?thesis
        by (simp add: l bind_simps throw_def)
    next
      case True
      with Inr have t: "checkConfigArray (requiredConfig Src) s = Inr True" by simp
      note m1 = checkConfigArray_True [OF t]
      from c t obtain columns where cols: "get_prop s ''columns'' = Inr columns"
        and cc: "checkConfigArray (requiredColumns Src) columns = Inr False"
        by (cases "get_prop s ''columns''") auto
      note m2 = checkConfigArray_False [OF cc]
      from cols have p: "field s ''columns'' = columns" by (simp add: field_def)
      show ?thesis
        by (simp add: l m1 m2 cols p bind_simps throw_def)
    qed
  qed
qed

lemma load_source_rejects:
  assumes "checkSourceConfig modules s \<noteq> Inr True"
  shows "\<exists>e. load_source modules s m = (Inl e, m)"
proof (cases "get_prop s ''type''")
  case (Inl e)
  then show ?thesis by (simp add: load_source_def bind_simps)
next
  case ty: (Inr type)
  show ?thesis
  proof (cases "getSourceFactory modules type")
    case (Inl e)
    then show ?thesis by (simp add: load_source_def ty bind_simps)
  next
    case cls: (Inr Src)
    show ?thesis
    proof (cases "checkSourceConfig modules s")
      case (Inl e)
      then show ?thesis by (simp add: load_source_def ty cls bind_simps)
    next
      case (Inr ok)
      with assms have "checkSourceConfig modules s = Inr False" by simp
      from load_source_invalid [OF ty cls this] show ?thesis by blast
    qed
  qed
qed

lemma new_SourceManager_snoc:
  assumes "new_SourceManager modules (Some pre) = (Inr (), m)"
  shows "new_SourceManager modules (Some (pre @ s # rest))
           = bind (load_source modules s) (\<lambda>_. for_each (load_source modules) rest) m"
proof (cases "pre = []")
  case True
  with assms show ?thesis by (auto simp: new_SourceManager_def)
next
  case False
  with assms have "for_each (load_source modules) pre \<lparr> sources = [], managed = [] \<rparr> = (Inr (), m)"
    by (simp add: new_SourceManager_def)
  then show ?thesis
    by (simp add: new_SourceManager_def for_each_append bind_def)
qed


lemma bind_Inr_iff:
  "bind m f s = (Inr y, s') \<longleftrightarrow> (\<exists>x s1. m s = (Inr x, s1) \<and> f x s1 = (Inr y, s'))"
  by (auto simp: bind_def split: prod.splits sum.splits)

lemma add_managed_ok:
  assumes "add_managed s c m = (Inr (), m')"
  shows "m' = m \<lparr> managed := set_add (field (field s ''columns'') c) (managed m) \<rparr>"
  using assms
  by (auto simp: add_managed_def bind_def lift_def field_def split: sum.splits)

lemma set_add_set: "set (set_add v vs) = insert v (set vs)"
  by (auto simp: set_add_def)

lemma for_each_add_managed_ok:
  "for_each (add_managed s) cs m = (Inr (), m') \<Longrightarrow>
     sources m' = sources m \<and> set (managed m) \<subseteq> set (managed m')
     \<and> (\<forall>c \<in> set cs. field (field s ''columns'') c \<in> set (managed m'))"
proof (induction cs arbitrary: m)
  case Nil
  then show ?case by (simp add: ret_def)
next
  case (Cons c cs)
  from Cons.prems obtain m1 where
    1: "add_managed s c m = (Inr (), m1)" and 2: "for_each (add_managed s) cs m1 = (Inr (), m')"
    by (auto simp: bind_Inr_iff)
  note a = add_managed_ok [OF 1]
  note b = Cons.IH [OF 2]
  from a have "sources m1 = sources m" "set (managed m1) = insert (field (field s ''columns'') c) (set (managed m))"
    by (simp_all add: set_add_set)
  with b show ?case by auto
qed

lemma load_source_ok:
  assumes "load_source modules s m = (Inr (), m')"
  shows "\<exists>type Src. get_prop s ''type'' = Inr type \<and> getSourceFactory modules type = Inr Src
     \<and> checkSourceConfig modules s = Inr True
     \<and> sources m' = sources m @ [(type, s)] \<and> set (managed m) \<subseteq> set (managed m')
     \<and> (\<forall>c \<in> set (managedColumns Src). field (field s ''columns'') c \<in> set (managed m'))"
proof -
  from assms obtain type where ty: "get_prop s ''type'' = Inr type"
    by (cases "get_prop s ''type''") (auto simp: load_source_def bind_simps)
  from assms obtain Src where cls: "getSourceFactory modules type = Inr Src"
    by (cases "getSourceFactory modules type") (auto simp: load_source_def ty bind_simps)
  have chk: "checkSourceConfig modules s = Inr True"
  proof (rule ccontr)
    assume "checkSourceConfig modules s \<noteq> Inr True"
    from load_source_rejects [OF this, of m] assms show False by auto
  qed
  from assms have c: "construct Src s = None"
    by (cases "construct Src s") (auto simp: load_source_def ty cls chk bind_simps)
  let ?m1 = "m \<lparr> sources := sources m @ [(type, s)] \<rparr>"
  from assms have r: "(if managedColumns Src \<noteq> [] then for_each (add_managed s) (managedColumns Src)
           else ret ()) ?m1 = (Inr (), m')"
    by (simp add: load_source_def ty cls chk c bind_simps) (simp add: bind_def split: if_splits)
  have "sources m' = sources ?m1 \<and> set (managed ?m1) \<subseteq> set (managed m')
     \<and> (\<forall>c \<in> set (managedColumns Src). field (field s ''columns'') c \<in> set (managed m'))"
  proof (cases "managedColumns Src = []")
    case True
    with r show ?thesis by (auto simp: ret_def)
  next
    case False
    with r have "for_each (add_managed s) (managedColumns Src) ?m1 = (Inr (), m')" by simp
    from for_each_add_managed_ok [OF this] show ?thesis .
  qed
  with ty cls chk show ?thesis by auto
qed

lemma for_each_load_source_ok:
  "for_each (load_source modules) ps m0 = (Inr (), m) \<Longrightarrow>
     map snd (sources m) = map snd (sources m0) @ ps \<and> set (managed m0) \<subseteq> set (managed m)
     \<and> (\<forall>p \<in> set ps. \<forall>Src. getSourceFactory modules (field p ''type'') = Inr Src \<longrightarrow>
           (\<forall>c \<in> set (managedColumns Src). field (field p ''columns'') c \<in> set (managed m)))"
proof (induction ps arbitrary: m0)
  case Nil
  then show ?case by (simp add: ret_def)
next
  case (Cons p ps)
  from Cons.prems obtain m1 where
    1: "load_source modules p m0 = (Inr (), m1)" and
    2: "for_each (load_source modules) ps m1 = (Inr (), m)"
    by (auto simp: bind_Inr_iff)
  from load_source_ok [OF 1] obtain type Src where
    ty: "get_prop p ''type'' = Inr type" and cls: "getSourceFactory modules type = Inr Src" and
    s: "sources m1 = sources m0 @ [(type, p)]" and g: "set (managed m0) \<subseteq> set (managed m1)" and
    c: "\<forall>c \<in> set (managedColumns Src). field (field p ''columns'') c \<in> set (managed m1)"
    by blast
  from ty have f: "field p ''type'' = type" by (simp add: field_def)
  note ih = Cons.IH [OF 2]
  from ih s have "map snd (sources m) = map snd (sources m0) @ p # ps" by simp
  moreover from ih g have "set (managed m0) \<subseteq> set (managed m)" by auto
  moreover have "\<forall>q \<in> set (p # ps). \<forall>Src. getSourceFactory modules (field q ''type'') = Inr Src \<longrightarrow>
           (\<forall>c \<in> set (managedColumns Src). field (field q ''columns'') c \<in> set (managed m))"
    using ih c cls f by auto
  ultimately show ?case by blast
qed

text \<open>
  A required key that the entry inherits counts as present, as \<^verbatim>\<open>in\<close> has it: a handler
  that requires \<open>toString\<close> accepts an entry without such a key.
\<close>

lemma inherited_key_is_present:
  "new_SourceManager (\<lambda>_. Some (Source \<lparr> requiredConfig := [''toString''] \<rparr>))
     (Some [Obj [(''type'', Str ''x'')]])
   = (Inr (), \<lparr> sources = [(Str ''x'', Obj [(''type'', Str ''x'')])], managed = [] \<rparr>)"
  by (simp add: new_SourceManager_def load_source_def checkSourceConfig_def checkConfigArray_def
        getSourceFactory_def NOT_SOURCES_def Source_def Object_prototype_def
        bind_def lift_def ret_def)

text \<open>
  C4. An entry whose type resolves and that fails \<open>checkSourceConfig\<close>, after entries that
  were loaded, makes the constructor throw a \<open>SourceLoadError\<close> for the type of the entry.
  Its message lists the required config keys that the entry lacks (a key is there when
  \<^verbatim>\<open>in\<close> finds it, own or inherited), when there are any, and only otherwise the required
  column roles that \<open>columns\<close> lacks. In particular an entry
  without the key \<open>columns\<close> is reported with the config keys message, \<open>columns\<close> among the
  keys.
\<close>

theorem SourceManager_validation_error:
  assumes "fst (new_SourceManager modules (Some pre)) = Inr ()"
    and "get_prop s ''type'' = Inr type"
    and "getSourceFactory modules type = Inr Src"
    and "checkSourceConfig modules s = Inr False"
  shows "fst (new_SourceManager modules (Some (pre @ s # rest))) =
           Inl (new_SourceLoadError
             (if missing_keys (requiredConfig Src) s \<noteq> []
              then ''Missing the following config keys: '' @ join (missing_keys (requiredConfig Src) s)
              else ''Missing column names: ''
                     @ join (missing_keys (requiredColumns Src) (field s ''columns''))) type)
     \<and> (''columns'' \<in> set (requiredConfig Src) \<and> \<not> has_key ''columns'' s \<longrightarrow>
          (\<exists>keys. ''columns'' \<in> set keys \<and>
             fst (new_SourceManager modules (Some (pre @ s # rest))) =
               Inl (new_SourceLoadError (''Missing the following config keys: '' @ join keys) type)))"
proof -
  obtain m where pre: "new_SourceManager modules (Some pre) = (Inr (), m)"
    using assms(1) by (cases "new_SourceManager modules (Some pre)") auto
  have 1: "fst (new_SourceManager modules (Some (pre @ s # rest))) =
           Inl (new_SourceLoadError
             (if missing_keys (requiredConfig Src) s \<noteq> []
              then ''Missing the following config keys: '' @ join (missing_keys (requiredConfig Src) s)
              else ''Missing column names: ''
                     @ join (missing_keys (requiredColumns Src) (field s ''columns''))) type)"
    unfolding new_SourceManager_snoc [OF pre]
    by (simp add: bind_def load_source_invalid [OF assms(2-4)])
  have 2: "''columns'' \<in> set (missing_keys (requiredConfig Src) s)"
    if "''columns'' \<in> set (requiredConfig Src)" "\<not> has_key ''columns'' s"
    using that by (simp add: missing_keys_def)
  show ?thesis
  proof (intro conjI impI)
    show "fst (new_SourceManager modules (Some (pre @ s # rest))) =
           Inl (new_SourceLoadError
             (if missing_keys (requiredConfig Src) s \<noteq> []
              then ''Missing the following config keys: '' @ join (missing_keys (requiredConfig Src) s)
              else ''Missing column names: ''
                     @ join (missing_keys (requiredColumns Src) (field s ''columns''))) type)"
      by (rule 1)
  next
    assume a: "''columns'' \<in> set (requiredConfig Src) \<and> \<not> has_key ''columns'' s"
    then have k: "''columns'' \<in> set (missing_keys (requiredConfig Src) s)"
      using 2 by blast
    then have "missing_keys (requiredConfig Src) s \<noteq> []" by auto
    with 1 k show "\<exists>keys. ''columns'' \<in> set keys \<and>
             fst (new_SourceManager modules (Some (pre @ s # rest))) =
               Inl (new_SourceLoadError (''Missing the following config keys: '' @ join keys) type)"
      by auto
  qed
qed

lemmas eval_manager = new_SourceManager_def load_source_def add_managed_def set_add_def
  checkSourceConfig_def checkConfigArray_def getSourceFactory_def NOT_SOURCES_def
  new_SourceLoadError_def example_modules_def IssuesSource_def DiscourseSource_def Source_def
  bind_def lift_def throw_def ret_def missing_keys_def has_key_def field_def Object_prototype_def

theorem SourceManager_validation_error_witness:
  "fst (new_SourceManager example_modules
          (Some [Obj [(''type'', Str ''issues''), (''columns'', Obj [])]]))
     = Inl (SourceLoadError
         ''Error when reading configuration for source issues: Missing column names: target''
         (Str ''issues''))
   \<and> fst (new_SourceManager example_modules
          (Some [Obj [(''type'', Str ''discourse''), (''accountName'', Str ''forum'')]]))
     = Inl (SourceLoadError
         ''Error when reading configuration for source discourse: Missing the following config keys: columns''
         (Str ''discourse''))
   \<and> fst (new_SourceManager (\<lambda>_. Some (Source \<lparr> requiredConfig := [''toString'', ''columns''] \<rparr>))
          (Some [Obj [(''type'', Str ''x'')]]))
     = Inl (SourceLoadError
         ''Error when reading configuration for source x: Missing the following config keys: columns''
         (Str ''x''))"
proof -
  let ?s1 = "Obj [(''type'', Str ''issues''), (''columns'', Obj [])]"
  let ?s2 = "Obj [(''type'', Str ''discourse''), (''accountName'', Str ''forum'')]"
  let ?mods = "\<lambda>_::string. Some (Source \<lparr> requiredConfig := [''toString'', ''columns''] \<rparr>)"
  let ?s3 = "Obj [(''type'', Str ''x'')]"
  have e3: "fst (new_SourceManager ?mods (Some [])) = Inr ()"
    by (simp add: new_SourceManager_def)
  have 5: "getSourceFactory ?mods (Str ''x'')
      = Inr (Source \<lparr> requiredConfig := [''toString'', ''columns''] \<rparr>)"
    by (simp add: getSourceFactory_def NOT_SOURCES_def)
  have 6: "checkSourceConfig ?mods ?s3 = Inr False"
    by (simp add: checkSourceConfig_def checkConfigArray_def getSourceFactory_def NOT_SOURCES_def
         Source_def Object_prototype_def)
  have t3: "get_prop ?s3 ''type'' = Inr (Str ''x'')" by simp
  have e: "fst (new_SourceManager example_modules (Some [])) = Inr ()"
    by (simp add: new_SourceManager_def)
  have 1: "getSourceFactory example_modules (Str ''issues'') = Inr IssuesSource"
    by (simp add: getSourceFactory_def NOT_SOURCES_def example_modules_def)
  have 2: "checkSourceConfig example_modules ?s1 = Inr False"
    by (simp add: eval_manager)
  have 3: "getSourceFactory example_modules (Str ''discourse'') = Inr (DiscourseSource (\<lambda>_. None))"
    by (simp add: getSourceFactory_def NOT_SOURCES_def example_modules_def)
  have 4: "checkSourceConfig example_modules ?s2 = Inr False"
    by (simp add: eval_manager)
  have t: "get_prop ?s1 ''type'' = Inr (Str ''issues'')" "get_prop ?s2 ''type'' = Inr (Str ''discourse'')"
    by simp_all
  from SourceManager_validation_error [OF e t(1) 1 2, of "[]"]
       SourceManager_validation_error [OF e t(2) 3 4, of "[]"]
       SourceManager_validation_error [OF e3 t3 5 6, of "[]"]
  show ?thesis
    by (simp add: missing_keys_def has_key_def field_def new_SourceLoadError_def
         IssuesSource_def DiscourseSource_def Source_def Object_prototype_def)
qed

text \<open>
  C8. When the entries \<open>pre\<close> have been loaded and the next entry does not pass
  \<open>checkSourceConfig\<close>, the constructor throws, whatever follows that entry, and the fields
  of the manager are then exactly what loading \<open>pre\<close> alone leaves: one handler for every
  entry of \<open>pre\<close>, in order, and every managed column of these handlers in the managed set.
\<close>

theorem SourceManager_fail_fast:
  assumes "new_SourceManager modules (Some pre) = (Inr (), m)"
    and "checkSourceConfig modules bad \<noteq> Inr True"
  shows "(\<exists>e. new_SourceManager modules (Some (pre @ bad # rest)) = (Inl e, m))
     \<and> map snd (sources m) = pre
     \<and> (\<forall>p \<in> set pre. \<forall>Src. getSourceFactory modules (field p ''type'') = Inr Src \<longrightarrow>
           (\<forall>c \<in> set (managedColumns Src). field (field p ''columns'') c \<in> set (managed m)))"
proof -
  from load_source_rejects [OF assms(2), of m] obtain e where
    "load_source modules bad m = (Inl e, m)" by blast
  then have "new_SourceManager modules (Some (pre @ bad # rest)) = (Inl e, m)"
    unfolding new_SourceManager_snoc [OF assms(1)] by (simp add: bind_def)
  moreover have "map snd (sources m) = pre
     \<and> (\<forall>p \<in> set pre. \<forall>Src. getSourceFactory modules (field p ''type'') = Inr Src \<longrightarrow>
           (\<forall>c \<in> set (managedColumns Src). field (field p ''columns'') c \<in> set (managed m)))"
  proof (cases "pre = []")
    case True
    with assms(1) show ?thesis by (auto simp: new_SourceManager_def)
  next
    case False
    with assms(1) have "for_each (load_source modules) pre \<lparr> sources = [], managed = [] \<rparr> = (Inr (), m)"
      by (simp add: new_SourceManager_def)
    from for_each_load_source_ok [OF this] show ?thesis by simp
  qed
  ultimately show ?thesis by blast
qed

theorem SourceManager_fail_fast_witness:
  "\<exists>e. new_SourceManager example_modules (Some
      [Obj [(''type'', Str ''publish''),
            (''columns'', Obj [(''target'', Str ''Done''), (''source'', Str ''To do'')])],
       Obj [(''type'', Str ''issues''), (''columns'', Obj [(''target'', Str ''Ideas'')])],
       Obj [(''type'', Str ''issues''), (''columns'', Obj [])],
       Obj [(''type'', Str ''issues''), (''columns'', Obj [(''target'', Str ''Backlog'')])]])
    = (Inl e,
       \<lparr> sources =
           [(Str ''publish'', Obj [(''type'', Str ''publish''),
              (''columns'', Obj [(''target'', Str ''Done''), (''source'', Str ''To do'')])]),
            (Str ''issues'', Obj [(''type'', Str ''issues''),
              (''columns'', Obj [(''target'', Str ''Ideas'')])])],
          managed = [Str ''Done''] \<rparr>)"
proof -
  let ?p1 = "Obj [(''type'', Str ''publish''),
            (''columns'', Obj [(''target'', Str ''Done''), (''source'', Str ''To do'')])]"
  let ?p2 = "Obj [(''type'', Str ''issues''), (''columns'', Obj [(''target'', Str ''Ideas'')])]"
  let ?bad = "Obj [(''type'', Str ''issues''), (''columns'', Obj [])]"
  let ?m = "\<lparr> sources = [(Str ''publish'', ?p1), (Str ''issues'', ?p2)], managed = [Str ''Done''] \<rparr>"
  have 1: "new_SourceManager example_modules (Some [?p1, ?p2]) = (Inr (), ?m)"
    by (simp add: eval_manager)
  have 2: "checkSourceConfig example_modules ?bad \<noteq> Inr True"
    by (simp add: eval_manager)
  from SourceManager_fail_fast [OF 1 2] show ?thesis by simp
qed

section \<open>Properties of IssuesSource\<close>

lemma every_other_id_Some:
  "every_other_id (map Some mcols) c = Inr (unmanaged mcols c)"
  by (induction mcols) (auto simp: unmanaged_def)

lemma handleCard_loop_scan:
  assumes "\<forall>c \<in> set (filter (unmanaged mcols) (present cs)). \<exists>b. hasIssue c (issue_number i) = Inr b"
  shows "handleCard_loop (map Some mcols) i cs t =
     (Inr (find (has i) (filter (unmanaged mcols) (present cs))),
      t @ map (\<lambda>c. HasIssue c (issue_number i))
            (scan_until (has i) (filter (unmanaged mcols) (present cs))))"
  using assms
proof (induction cs arbitrary: t)
  case Nil
  show ?case by (simp add: ret_def)
next
  case (Cons x cs)
  show ?case
  proof (cases x)
    case None
    with Cons show ?thesis by simp
  next
    case (Some c)
    show ?thesis
    proof (cases "unmanaged mcols c")
      case False
      with Cons Some show ?thesis
        by (simp add: every_other_id_Some bind_def lift_def)
    next
      case True
      with Cons.prems Some obtain b where b: "hasIssue c (issue_number i) = Inr b"
        by auto
      show ?thesis
      proof (cases b)
        case True
        with b \<open>unmanaged mcols c\<close> Some show ?thesis
          by (simp add: every_other_id_Some bind_def lift_def call_hasIssue_def ret_def has_def)
      next
        case False
        with b have nh: "\<not> has i c" by (simp add: has_def)
        have "handleCard_loop (map Some mcols) i (x # cs) t
              = handleCard_loop (map Some mcols) i cs (t @ [HasIssue c (issue_number i)])"
          using b False \<open>unmanaged mcols c\<close> Some
          by (simp add: every_other_id_Some bind_def lift_def call_hasIssue_def)
        also have "\<dots> = (Inr (find (has i) (filter (unmanaged mcols) (present cs))),
            (t @ [HasIssue c (issue_number i)]) @ map (\<lambda>c. HasIssue c (issue_number i))
            (scan_until (has i) (filter (unmanaged mcols) (present cs))))"
          using Cons.prems Some by (intro Cons.IH) auto
        finally show ?thesis
          using nh \<open>unmanaged mcols c\<close> Some by simp
      qed
    qed
  qed
qed

text \<open>
  C6. When the board's columns and the managed columns resolve, and \<open>hasIssue\<close> answers on
  the columns that are not managed, \<open>handleCard\<close> asks, in the order of the board, only
  columns whose id is not the id of a managed column, up to the first one that has the
  issue. It returns that column, and \<open>None\<close> (\<^verbatim>\<open>null\<close>) when none of them has the issue.
\<close>

theorem handleCard_first_unmanaged:
  assumes "columns (src_board this) = Inr cols"
    and "getManagedColumns this = Inr (map Some mcols)"
    and "\<forall>c \<in> set (filter (unmanaged mcols) (present (map snd cols))).
           \<exists>b. hasIssue c (issue_number i) = Inr b"
  shows "handleCard this i t =
     (Inr (find (has i) (filter (unmanaged mcols) (present (map snd cols)))),
      t @ map (\<lambda>c. HasIssue c (issue_number i))
            (scan_until (has i) (filter (unmanaged mcols) (present (map snd cols)))))"
  using handleCard_loop_scan [OF assms(3)]
  by (simp add: handleCard_def assms(1,2) bind_def lift_def)


lemma addIssue_loop_scan:
  assumes "\<forall>c \<in> set (present cs). \<exists>b. hasIssue c (issue_number i) = Inr b"
  shows "addIssue_loop i cs t =
     (Inr (find (has i) (present cs)),
      t @ map (\<lambda>c. HasIssue c (issue_number i)) (scan_until (has i) (present cs)))"
  using assms
proof (induction cs arbitrary: t)
  case Nil
  show ?case by (simp add: ret_def)
next
  case (Cons x cs)
  show ?case
  proof (cases x)
    case None
    with Cons show ?thesis by simp
  next
    case (Some c)
    with Cons.prems obtain b where b: "hasIssue c (issue_number i) = Inr b"
      by auto
    show ?thesis
    proof (cases b)
      case True
      with b Some show ?thesis
        by (simp add: bind_def call_hasIssue_def ret_def has_def)
    next
      case False
      with b have nh: "\<not> has i c" by (simp add: has_def)
      have "addIssue_loop i (x # cs) t = addIssue_loop i cs (t @ [HasIssue c (issue_number i)])"
        using b False Some by (simp add: bind_def call_hasIssue_def)
      also have "\<dots> = (Inr (find (has i) (present cs)),
            (t @ [HasIssue c (issue_number i)]) @ map (\<lambda>c. HasIssue c (issue_number i))
            (scan_until (has i) (present cs)))"
        using Cons.prems Some by (intro Cons.IH) auto
      finally show ?thesis
        using nh Some by simp
    qed
  qed
qed

lemma getColumn_resolves:
  assumes "ready (src_board this) = None"
    and "columns (src_board this) = Inr cols"
    and "columnIds (src_board this) = Inr ids"
    and "get_prop (src_config this) ''columns'' = Inr names"
    and "get_prop names key = Inr name"
  shows "getColumn this key = Inr (column_named cols ids name)"
  using assms by (simp add: getColumn_def column_named_def)

text \<open>
  C3. When the board's columns resolve and \<open>hasIssue\<close> answers on them: if some column has
  the issue, \<open>addIssue\<close> calls the board's \<open>addCard\<close> with the first such column \<open>X\<close>,
  whatever \<open>isClosed\<close> and the target are, and returns the card of that call. If no column
  has the issue, an issue that is not closed is added to the configured target: the column
  that the board holds under the name that \<open>columns.target\<close> of the handler's
  configuration gives, once the board is ready and its column ids resolve. For a closed
  issue that no column has, \<open>addCard\<close> is not called and the result is \<^verbatim>\<open>undefined\<close>.
\<close>

theorem addIssue_placement:
  assumes "columns (src_board this) = Inr cols"
    and "\<forall>c \<in> set (present (map snd cols)). \<exists>b. hasIssue c (issue_number i) = Inr b"
  shows "(\<forall>X. find (has i) (present (map snd cols)) = Some X \<longrightarrow>
            addIssue this i isClosed t =
              (case addCard (src_board this) i (Some X) of Inl e \<Rightarrow> Inl e | Inr cd \<Rightarrow> Inr (Some cd),
               t @ map (\<lambda>c. HasIssue c (issue_number i)) (scan_until (has i) (present (map snd cols)))
                 @ [AddCard i (Some X)]))
     \<and> (find (has i) (present (map snd cols)) = None \<longrightarrow>
          (\<forall>ids names name.
              ready (src_board this) = None \<and> columnIds (src_board this) = Inr ids
            \<and> get_prop (src_config this) ''columns'' = Inr names
            \<and> get_prop names ''target'' = Inr name \<longrightarrow>
            addIssue this i False t =
              (case addCard (src_board this) i (column_named cols ids name) of
                 Inl e \<Rightarrow> Inl e | Inr cd \<Rightarrow> Inr (Some cd),
               t @ map (\<lambda>c. HasIssue c (issue_number i)) (present (map snd cols))
                 @ [AddCard i (column_named cols ids name)]))
          \<and> addIssue this i True t =
              (Inr None, t @ map (\<lambda>c. HasIssue c (issue_number i)) (present (map snd cols))))"
proof -
  note l = addIssue_loop_scan [OF assms(2)]
  have n: "scan_until (has i) xs = xs" if "find (has i) xs = None" for xs
    using that by (induction xs) (auto split: if_splits)
  have found: "addIssue this i isClosed t =
              (case addCard (src_board this) i (Some X) of Inl e \<Rightarrow> Inl e | Inr cd \<Rightarrow> Inr (Some cd),
               t @ map (\<lambda>c. HasIssue c (issue_number i)) (scan_until (has i) (present (map snd cols)))
                 @ [AddCard i (Some X)])"
    if "find (has i) (present (map snd cols)) = Some X" for X
    using that
    by (auto simp: addIssue_def assms(1) l bind_def lift_def call_addCard_def ret_def
          split: sum.splits)
  have closed_new: "addIssue this i True t =
              (Inr None, t @ map (\<lambda>c. HasIssue c (issue_number i)) (present (map snd cols)))"
    if "find (has i) (present (map snd cols)) = None"
    using that
    by (simp add: addIssue_def assms(1) l bind_def lift_def ret_def n)
  have open_new: "addIssue this i False t =
              (case addCard (src_board this) i (column_named cols ids name) of
                 Inl e \<Rightarrow> Inl e | Inr cd \<Rightarrow> Inr (Some cd),
               t @ map (\<lambda>c. HasIssue c (issue_number i)) (present (map snd cols))
                 @ [AddCard i (column_named cols ids name)])"
    if "find (has i) (present (map snd cols)) = None"
      and "ready (src_board this) = None" "columnIds (src_board this) = Inr ids"
      "get_prop (src_config this) ''columns'' = Inr names" "get_prop names ''target'' = Inr name"
    for ids names name
  proof -
    have g: "getColumn this ''target'' = Inr (column_named cols ids name)"
      using that(2) assms(1) that(3-5) by (rule getColumn_resolves)
    show ?thesis
      using that(1)
      by (auto simp: addIssue_def assms(1) l g bind_def lift_def call_addCard_def ret_def n
            split: sum.splits)
  qed
  from found closed_new open_new show ?thesis by blast
qed








lemma example_fields [simp]:
  "col_id colM = 1" "col_id colA = 3" "col_id colB = 4" "col_id colC = 5" "col_id colD = 6"
  "hasIssue colM n = Inr True" "hasIssue colA n = Inr False" "hasIssue colD n = Inr True"
  "getCard colD k = Inl (Rejected ''offline'')"
  "hasIssue colB n = Inr (n = 7)" "hasIssue colC n = Inr (n = 7)"
  "getCard colB k = Inr (if k = 700 then Some card7 else None)"
  "removeCard colB cd = Some (Rejected ''locked'')"
  "reportError card7 ctx e = None"
  "issue_number issue7 = 7" "issue_id issue7 = 700"
  "issue_number issue8 = 8" "issue_id issue8 = 800"
  "columns (src_board (example_source cols mgd)) = Inr cols"
  "getManagedColumns (example_source cols mgd) = mgd"
  "addCard (src_board (example_source cols mgd)) i c
     = Inr \<lparr> card_id = 10 * issue_number i, reportError = (\<lambda>_ _. None) \<rparr>"
  by (simp_all add: colM_def colA_def colB_def colC_def colD_def card7_def issue7_def issue8_def
        example_source_def example_board_def)

lemma example_repo [simp]:
  "issues (src_repo (example_source cols mgd)) = Inr [issue8]"
  "closedIssues (src_repo (example_source cols mgd)) = Inr [issue7]"
  by (simp_all add: example_source_def)

lemma example_config [simp]:
  "ready (src_board (example_source cols mgd)) = None"
  "columnIds (src_board (example_source cols mgd))
     = Inr [(''Done'', 1), (''Ideas'', 3), (''Queue'', 4), (''Later'', 5)]"
  "src_config (example_source cols mgd)
     = Obj [(''type'', Str ''issues''), (''columns'', Obj [(''target'', Str ''Ideas'')])]"
  by (simp_all add: example_source_def example_board_def)

lemma example_target [simp]: "getColumn (example_source cols mgd) ''target'' =
    Inr (case map_of cols 3 of None \<Rightarrow> None | Some c \<Rightarrow> c)"
  by (simp add: getColumn_def example_source_def example_board_def)

theorem handleCard_first_unmanaged_witness:
  "handleCard
     (example_source [(1, Some colM), (2, None), (3, Some colA), (4, Some colB), (5, Some colC)]
        (Inr [Some colM]))
     issue7 []
   = (Inr (Some colB), [HasIssue colA 7, HasIssue colB 7])
   \<and> handleCard
     (example_source [(1, Some colM), (2, None), (3, Some colA), (4, Some colB), (5, Some colC)]
        (Inr [Some colM]))
     issue8 []
   = (Inr None, [HasIssue colA 8, HasIssue colB 8, HasIssue colC 8])"
proof -
  let ?cols = "[(1, Some colM), (2, None), (3, Some colA), (4, Some colB), (5, Some colC)]"
  let ?src = "example_source ?cols (Inr [Some colM])"
  have 1: "columns (src_board ?src) = Inr ?cols" by simp
  have 2: "getManagedColumns ?src = Inr (map Some [colM])" by simp
  have 3: "\<forall>c \<in> set (filter (unmanaged [colM]) (present (map snd ?cols))).
           \<exists>b. hasIssue c (issue_number i) = Inr b" for i :: issue
    by (auto simp: unmanaged_def)
  from handleCard_first_unmanaged [OF 1 2 3, of issue7 "[]"]
       handleCard_first_unmanaged [OF 1 2 3, of issue8 "[]"]
  show ?thesis by (simp add: unmanaged_def has_def)
qed

theorem addIssue_placement_witness:
  "addIssue (example_source [(4, Some colB), (3, Some colA)] (Inr [])) issue7 False []
     = (Inr (Some \<lparr> card_id = 70, reportError = (\<lambda>_ _. None) \<rparr>),
        [HasIssue colB 7, AddCard issue7 (Some colB)])
   \<and> addIssue (example_source [(4, Some colB), (3, Some colA)] (Inr [])) issue8 False []
     = (Inr (Some \<lparr> card_id = 80, reportError = (\<lambda>_ _. None) \<rparr>),
        [HasIssue colB 8, HasIssue colA 8, AddCard issue8 (Some colA)])
   \<and> addIssue ((example_source [(4, Some colB), (3, Some colA)] (Inr []))
         \<lparr> src_config := Obj [(''type'', Str ''issues''), (''columns'', Obj [(''target'', Str ''Queue'')])] \<rparr>)
        issue8 False []
     = (Inr (Some \<lparr> card_id = 80, reportError = (\<lambda>_ _. None) \<rparr>),
        [HasIssue colB 8, HasIssue colA 8, AddCard issue8 (Some colB)])
   \<and> addIssue (example_source [(4, Some colB), (3, Some colA)] (Inr [])) issue8 True []
     = (Inr None, [HasIssue colB 8, HasIssue colA 8])"
proof -
  let ?cols = "[(4, Some colB), (3, Some colA)]"
  let ?src = "example_source ?cols (Inr [])"
  let ?src2 = "?src \<lparr> src_config := Obj [(''type'', Str ''issues''),
      (''columns'', Obj [(''target'', Str ''Queue'')])] \<rparr>"
  have 1: "columns (src_board ?src) = Inr ?cols" by simp
  have 2: "\<forall>c \<in> set (present (map snd ?cols)). \<exists>b. hasIssue c (issue_number i) = Inr b" for i :: issue
    by auto
  have 3: "columns (src_board ?src2) = Inr ?cols" by simp
  have b2 [simp]: "src_board ?src2 = src_board ?src" by simp
  from addIssue_placement [OF 1 2, of issue7 False "[]"]
  have "addIssue ?src issue7 False []
     = (Inr (Some \<lparr> card_id = 70, reportError = (\<lambda>_ _. None) \<rparr>),
        [HasIssue colB 7, AddCard issue7 (Some colB)])"
    by (simp add: has_def)
  moreover from addIssue_placement [OF 1 2, of issue8 False "[]"]
  have "addIssue ?src issue8 False []
     = (Inr (Some \<lparr> card_id = 80, reportError = (\<lambda>_ _. None) \<rparr>),
        [HasIssue colB 8, HasIssue colA 8, AddCard issue8 (Some colA)])
    \<and> addIssue ?src issue8 True [] = (Inr None, [HasIssue colB 8, HasIssue colA 8])"
    by (simp add: has_def column_named_def)
  moreover from addIssue_placement [OF 3 2, of issue8 False "[]"]
  have "addIssue ?src2 issue8 False []
     = (Inr (Some \<lparr> card_id = 80, reportError = (\<lambda>_ _. None) \<rparr>),
        [HasIssue colB 8, HasIssue colA 8, AddCard issue8 (Some colB)])"
    by (simp add: has_def column_named_def)
  ultimately show ?thesis by blast
qed


section \<open>Properties of the cache\<close>

lemma map_of_snoc:
  "map_of (xs @ [(k, v)]) k' = (case map_of xs k' of Some w \<Rightarrow> Some w | None \<Rightarrow> if k' = k then Some v else None)"
  by (simp add: map_add_def split: option.splits)

lemma cache_inv_new: "cache_inv (new_DataStore ct)"
  by (simp add: cache_inv_def new_DataStore_def)

lemma cache_inv_getData: "cache_inv c \<Longrightarrow> cache_inv (snd (getData now c))"
  by (auto simp: cache_inv_def getData_def Let_def less_Suc_eq split: option.splits)

lemma cache_inv_resolved: "cache_inv c \<Longrightarrow> cache_inv (fetch_resolved now v c)"
  by (auto simp: cache_inv_def fetch_resolved_def map_of_snoc split: option.splits)

lemma cache_inv_rejected: "cache_inv c \<Longrightarrow> cache_inv (fetch_rejected e c)"
  by (auto simp: cache_inv_def fetch_rejected_def map_of_snoc split: option.splits)

lemma cache_inv_run: "cache_inv c \<Longrightarrow> cache_inv (snd (run acts c))"
proof (induction acts c rule: run.induct)
  case (1 c)
  then show ?case by simp
next
  case (2 now as c)
  from 2 cache_inv_getData [of c now] show ?case
    by (auto split: prod.splits)
next
  case (3 now v as c)
  then show ?case by (simp add: cache_inv_resolved)
next
  case (4 e as c)
  then show ?case by (simp add: cache_inv_rejected)
qed

lemma outstanding_inv:
  assumes "cache_inv c"
  shows "outstanding c = (case pendingFetch c of None \<Rightarrow> [] | Some p \<Rightarrow> [p])"
proof (cases "pendingFetch c")
  case None
  with assms have "\<forall>f < length (fetches c). map_of (outcomes c) f \<noteq> None"
    by (simp add: cache_inv_def)
  then have "filter (\<lambda>f. map_of (outcomes c) f = None) [0 ..< length (fetches c)] = []"
    by (auto simp: filter_empty_conv)
  with None show ?thesis by (simp add: outstanding_def)
next
  case (Some p)
  with assms have p: "p < length (fetches c)" "map_of (outcomes c) p = None"
    and o: "\<forall>f < length (fetches c). f \<noteq> p \<longrightarrow> map_of (outcomes c) f \<noteq> None"
    by (simp_all add: cache_inv_def)
  have "filter (\<lambda>f. map_of (outcomes c) f = None) [0 ..< length (fetches c)]
        = filter (\<lambda>f. f = p) [0 ..< length (fetches c)]"
    using p o by (intro filter_cong) auto
  also have "\<dots> = [p]"
  proof -
    have "[0 ..< length (fetches c)] = [0 ..< p] @ p # [Suc p ..< length (fetches c)]"
      using p(1) by (metis le0 upt_conv_Cons upt_add_eq_append le_add_diff_inverse less_imp_le_nat)
    then show ?thesis by (simp add: filter_empty_conv)
  qed
  finally show ?thesis using Some by (simp add: outstanding_def)
qed

lemma run_append:
  "run (as @ bs) c = (let (rs, c') = run as c; (rs', c'') = run bs c' in (rs @ rs', c''))"
  by (induction as c rule: run.induct) (auto split: prod.splits)

lemma run_in_flight:
  "pendingFetch c = Some f \<Longrightarrow> run (map GetData ts) c = (replicate (length ts) (Pending f), c)"
  by (induction ts) (auto simp: getData_def)

lemma cacheTime_run: "cacheTime (snd (run acts c)) = cacheTime c"
  by (induction acts c rule: run.induct)
     (auto simp: getData_def fetch_resolved_def fetch_rejected_def Let_def split: prod.splits option.splits)

lemma never_completed_run:
  "\<forall>a \<in> set acts. \<forall>t v. a \<noteq> Resolve t v \<Longrightarrow> lastUpdateTimestamp c = None \<Longrightarrow>
     lastUpdateTimestamp (snd (run acts c)) = None"
  by (induction acts c rule: run.induct)
     (auto simp: getData_def fetch_rejected_def Let_def split: prod.splits option.splits)


text \<open>
  C1. In every state that a cache reaches, at most one future is outstanding. While a
  fetch is in flight, any number of calls of \<open>getData\<close> return the future of that fetch
  and leave the cache as it is, so that the fetch function is not invoked. From a cache
  with nothing in flight that has expired, a call followed by \<open>N\<close> more calls invokes
  the fetch function once, every call gets the same future, and when the fetch resolves
  with \<open>v\<close>, that future gives \<open>v\<close>.
\<close>

theorem single_flight:
  assumes "c = snd (run acts (new_DataStore ct))"
  shows "length (outstanding c) \<le> 1
     \<and> (\<forall>f. pendingFetch c = Some f \<longrightarrow>
           run (map GetData ts) c = (replicate (length ts) (Pending f), c))
     \<and> (pendingFetch c = None \<and> cacheExpired t0 c \<longrightarrow>
           (\<exists>c'. run (GetData t0 # map GetData ts @ [Resolve t1 v]) c
                   = (replicate (Suc (length ts)) (Pending (length (fetches c))), c')
              \<and> fetches c' = fetches c @ [data c]
              \<and> await c' (Pending (length (fetches c))) = Some (Inr (Some v))))"
proof -
  have inv: "cache_inv c"
    unfolding assms by (intro cache_inv_run cache_inv_new)
  have 1: "length (outstanding c) \<le> 1"
    by (simp add: outstanding_inv [OF inv] split: option.splits)
  have 2: "\<forall>f. pendingFetch c = Some f \<longrightarrow>
           run (map GetData ts) c = (replicate (length ts) (Pending f), c)"
    by (simp add: run_in_flight)
  have 3: "\<exists>c'. run (GetData t0 # map GetData ts @ [Resolve t1 v]) c
                   = (replicate (Suc (length ts)) (Pending (length (fetches c))), c')
              \<and> fetches c' = fetches c @ [data c]
              \<and> await c' (Pending (length (fetches c))) = Some (Inr (Some v))"
    if n: "pendingFetch c = None" and e: "cacheExpired t0 c"
  proof -
    let ?f = "length (fetches c)"
    let ?c1 = "c \<lparr> pendingFetch := Some ?f, fetches := fetches c @ [data c] \<rparr>"
    have g: "getData t0 c = (Pending ?f, ?c1)"
      using n e by (simp add: getData_def Let_def)
    have p: "pendingFetch ?c1 = Some ?f" by simp
    have fresh: "map_of (outcomes c) ?f = None"
      using inv by (auto simp: cache_inv_def)
    let ?c2 = "fetch_resolved t1 v ?c1"
    have r: "run (GetData t0 # map GetData ts @ [Resolve t1 v]) c
             = (replicate (Suc (length ts)) (Pending ?f), ?c2)"
      by (simp add: g run_append run_in_flight [OF p])
    have "fetches ?c2 = fetches c @ [data c]"
      by (simp add: fetch_resolved_def)
    moreover have "await ?c2 (Pending ?f) = Some (Inr (Some v))"
      using fresh by (simp add: await_def fetch_resolved_def map_add_def)
    ultimately show ?thesis using r by blast
  qed
  from 1 2 3 show ?thesis by blast
qed

theorem single_flight_witness:
  "run [GetData 10000, GetData 10000, GetData 10001, Resolve 10002 (42::nat)] (new_DataStore 3000)
     = ([Pending 0, Pending 0, Pending 0],
        \<lparr> data = Some 42, lastUpdateTimestamp = Some 10002, pendingFetch = None,
          cacheTime = 3000, fetches = [None], outcomes = [(0, Inr 42)] \<rparr>)
   \<and> await \<lparr> data = Some (42::nat), lastUpdateTimestamp = Some 10002, pendingFetch = None,
          cacheTime = 3000, fetches = [None], outcomes = [(0, Inr 42)] \<rparr> (Pending 0)
     = Some (Inr (Some 42))
   \<and> run [GetData 10001, GetData 20000]
        (\<lparr> data = None, lastUpdateTimestamp = None, pendingFetch = Some 0,
           cacheTime = 3000, fetches = [None], outcomes = [] \<rparr> :: nat cache)
     = ([Pending 0, Pending 0],
        \<lparr> data = None, lastUpdateTimestamp = None, pendingFetch = Some 0,
          cacheTime = 3000, fetches = [None], outcomes = [] \<rparr>)"
proof -
  let ?c = "new_DataStore 3000 :: nat cache"
  let ?d = "\<lparr> data = None, lastUpdateTimestamp = None, pendingFetch = Some 0,
           cacheTime = 3000, fetches = [None], outcomes = [] \<rparr> :: nat cache"
  have 0: "?c = snd (run [] ?c)" by simp
  have 1: "pendingFetch ?c = None \<and> cacheExpired 10000 ?c"
    by (simp add: new_DataStore_def cacheExpired_def)
  have 2: "?d = snd (run [GetData 10000] ?c)"
    by (simp add: new_DataStore_def getData_def cacheExpired_def Let_def)
  have 3: "pendingFetch ?d = Some 0" by simp
  from single_flight [OF 0, of "[10000, 10001]" 10000 10002 42] 1
  have "run [GetData 10000, GetData 10000, GetData 10001, Resolve 10002 (42::nat)] ?c
     = ([Pending 0, Pending 0, Pending 0],
        \<lparr> data = Some 42, lastUpdateTimestamp = Some 10002, pendingFetch = None,
          cacheTime = 3000, fetches = [None], outcomes = [(0, Inr 42)] \<rparr>)
   \<and> await \<lparr> data = Some (42::nat), lastUpdateTimestamp = Some 10002, pendingFetch = None,
          cacheTime = 3000, fetches = [None], outcomes = [(0, Inr 42)] \<rparr> (Pending 0)
     = Some (Inr (Some 42))"
    by (auto simp: new_DataStore_def getData_def cacheExpired_def fetch_resolved_def Let_def)
  moreover from single_flight [OF 2, of "[10001, 20000]"] 3
  have "run [GetData 10001, GetData 20000] ?d = ([Pending 0, Pending 0], ?d)"
    by simp
  ultimately show ?thesis by blast
qed

text \<open>
  C5. From an expired cache with nothing in flight: \<open>getData\<close> starts a fetch; when it is
  rejected with \<open>e\<close>, the data and the timestamp are what they were, nothing is in flight,
  and the awaiters of the future get \<open>e\<close>. The next \<open>getData\<close>, not earlier in time,
  invokes the fetch function again (two invocations in all) and returns a new future,
  which gives \<open>v\<close> when that fetch resolves with \<open>v\<close>.
\<close>

theorem retry_after_failure:
  assumes "c = snd (run acts (new_DataStore ct))"
    and "pendingFetch c = None" and "cacheExpired t0 c" and "t0 \<le> t1"
  shows "\<exists>c1 c3.
       getData t0 c = (Pending (length (fetches c)), c1)
     \<and> data (fetch_rejected e c1) = data c
     \<and> lastUpdateTimestamp (fetch_rejected e c1) = lastUpdateTimestamp c
     \<and> pendingFetch (fetch_rejected e c1) = None
     \<and> await (fetch_rejected e c1) (Pending (length (fetches c))) = Some (Inl e)
     \<and> getData t1 (fetch_rejected e c1) = (Pending (Suc (length (fetches c))), c3)
     \<and> fetches c3 = fetches c @ [data c, data c]
     \<and> await (fetch_resolved t2 v c3) (Pending (Suc (length (fetches c)))) = Some (Inr (Some v))"
proof -
  have inv: "cache_inv c"
    unfolding assms(1) by (intro cache_inv_run cache_inv_new)
  let ?f = "length (fetches c)"
  let ?c1 = "c \<lparr> pendingFetch := Some ?f, fetches := fetches c @ [data c] \<rparr>"
  have g: "getData t0 c = (Pending ?f, ?c1)"
    using assms(2,3) by (simp add: getData_def Let_def)
  have fresh: "map_of (outcomes c) ?f = None" "map_of (outcomes c) (Suc ?f) = None"
    using inv by (auto simp: cache_inv_def)
  let ?c2 = "fetch_rejected e ?c1"
  have c2: "?c2 = c \<lparr> fetches := fetches c @ [data c], outcomes := outcomes c @ [(?f, Inl e)] \<rparr>"
    using assms(2) by (simp add: fetch_rejected_def)
  have e1: "cacheExpired t1 ?c2"
    using assms(3,4) by (simp add: c2 cacheExpired_def split: option.splits)
  let ?c3 = "?c2 \<lparr> pendingFetch := Some (Suc ?f), fetches := fetches ?c2 @ [data ?c2] \<rparr>"
  have g2: "getData t1 ?c2 = (Pending (Suc ?f), ?c3)"
    using e1 assms(2) by (simp add: getData_def Let_def c2)
  have "await ?c2 (Pending ?f) = Some (Inl e)"
    using fresh by (simp add: c2 await_def map_add_def)
  moreover have "fetches ?c3 = fetches c @ [data c, data c]"
    by (simp add: c2)
  moreover have "await (fetch_resolved t2 v ?c3) (Pending (Suc ?f)) = Some (Inr (Some v))"
    using fresh by (simp add: c2 await_def fetch_resolved_def map_add_def)
  moreover have "data ?c2 = data c" "lastUpdateTimestamp ?c2 = lastUpdateTimestamp c"
    "pendingFetch ?c2 = None"
    using assms(2) by (simp_all add: c2)
  ultimately show ?thesis using g g2 by blast
qed

theorem retry_after_failure_witness:
  "run [GetData 10000, Reject (Rejected ''Error''), GetData 10000, Resolve 10000 (1::nat)]
      (new_DataStore 3000)
     = ([Pending 0, Pending 1],
        \<lparr> data = Some 1, lastUpdateTimestamp = Some 10000, pendingFetch = None,
          cacheTime = 3000, fetches = [None, None],
          outcomes = [(0, Inl (Rejected ''Error'')), (1, Inr 1)] \<rparr>)"
proof -
  let ?c = "new_DataStore 3000 :: nat cache"
  have 0: "?c = snd (run [] ?c)" by simp
  have 1: "pendingFetch ?c = None" "cacheExpired 10000 ?c" "(10000::int) \<le> 10000"
    by (simp_all add: new_DataStore_def cacheExpired_def)
  from retry_after_failure [OF 0 1, of "Rejected ''Error''" 10000 1]
  show ?thesis
    by (auto simp: new_DataStore_def getData_def cacheExpired_def fetch_resolved_def
          fetch_rejected_def Let_def)
qed

text \<open>
  C7. A cache on which no fetch has resolved is expired at every time. After the fetch in
  flight resolves at time \<open>t0\<close>, the cache is expired at time \<open>now\<close> exactly when
  \<open>now - t0 \<ge> cacheTime\<close>.
\<close>

theorem cacheExpired_ttl:
  "((\<forall>a \<in> set acts. \<forall>t v. a \<noteq> Resolve t v) \<longrightarrow>
       cacheExpired now (snd (run acts (new_DataStore ct))))
   \<and> (\<forall>c f. c = snd (run acts (new_DataStore ct)) \<and> pendingFetch c = Some f \<longrightarrow>
        (cacheExpired now (fetch_resolved t0 v c) \<longleftrightarrow> now - t0 \<ge> ct))"
proof (intro conjI impI allI)
  assume "\<forall>a \<in> set acts. \<forall>t v. a \<noteq> Resolve t v"
  then have "lastUpdateTimestamp (snd (run acts (new_DataStore ct))) = None"
    by (rule never_completed_run) (simp add: new_DataStore_def)
  then show "cacheExpired now (snd (run acts (new_DataStore ct)))"
    by (simp add: cacheExpired_def)
next
  fix c :: "'a cache" and f
  assume a: "c = snd (run acts (new_DataStore ct)) \<and> pendingFetch c = Some f"
  then have c: "c = snd (run acts (new_DataStore ct))" and p: "pendingFetch c = Some f"
    by blast+
  have t: "cacheTime c = ct"
    unfolding c cacheTime_run by (simp add: new_DataStore_def)
  have "fetch_resolved t0 v c = c \<lparr> data := Some v, lastUpdateTimestamp := Some t0,
      pendingFetch := None, outcomes := outcomes c @ [(f, Inr v)] \<rparr>"
    by (simp add: fetch_resolved_def p)
  then show "cacheExpired now (fetch_resolved t0 v c) \<longleftrightarrow> now - t0 \<ge> ct"
    by (simp add: cacheExpired_def t)
qed

theorem cacheExpired_ttl_witness:
  "cacheExpired 20000
     (snd (run [GetData 10000, Reject (Rejected ''Error''), GetData 10001] (new_DataStore 3000 :: nat cache)))
   \<and> \<not> cacheExpired 10000 (fetch_resolved 10000 (5::nat) (snd (run [GetData 10000] (new_DataStore 3000))))
   \<and> \<not> cacheExpired 12999 (fetch_resolved 10000 (5::nat) (snd (run [GetData 10000] (new_DataStore 3000))))
   \<and> cacheExpired 13000 (fetch_resolved 10000 (5::nat) (snd (run [GetData 10000] (new_DataStore 3000))))"
proof -
  let ?c = "snd (run [GetData 10000] (new_DataStore 3000)) :: nat cache"
  have p: "pendingFetch ?c = Some 0"
    by (simp add: new_DataStore_def getData_def cacheExpired_def Let_def)
  from cacheExpired_ttl
         [of "[GetData 10000, Reject (Rejected ''Error''), GetData 10001]" 20000 3000 10000 "5::nat"]
  have "cacheExpired 20000
     (snd (run [GetData 10000, Reject (Rejected ''Error''), GetData 10001] (new_DataStore 3000 :: nat cache)))"
    by simp
  moreover from cacheExpired_ttl [of "[GetData 10000]" 10000 3000 10000 "5::nat"] p
  have "\<not> cacheExpired 10000 (fetch_resolved 10000 (5::nat) ?c)" by simp
  moreover from cacheExpired_ttl [of "[GetData 10000]" 12999 3000 10000 "5::nat"] p
  have "\<not> cacheExpired 12999 (fetch_resolved 10000 (5::nat) ?c)" by simp
  moreover from cacheExpired_ttl [of "[GetData 10000]" 13000 3000 10000 "5::nat"] p
  have "cacheExpired 13000 (fetch_resolved 10000 (5::nat) ?c)" by simp
  ultimately show ?thesis by blast
qed

text \<open>The scenarios of the test file of the cache, run on the model.\<close>

lemma test_get_data_from_cache:
  "run [GetData 10000, Resolve 10000 ''lorem ipsum'', GetData 10000] (new_DataStore 60000)
     = ([Pending 0, Ready (Some ''lorem ipsum'')],
        \<lparr> data = Some ''lorem ipsum'', lastUpdateTimestamp = Some 10000, pendingFetch = None,
          cacheTime = 60000, fetches = [None], outcomes = [(0, Inr ''lorem ipsum'')] \<rparr>)"
  by (simp add: new_DataStore_def getData_def cacheExpired_def fetch_resolved_def Let_def)

lemma test_get_data_from_expired_cache:
  "fetches (snd (run [GetData 10000, Resolve 10000 ''lorem ipsum'', GetData 13001]
      (new_DataStore 3000))) = [None, Some ''lorem ipsum'']"
  by (simp add: new_DataStore_def getData_def cacheExpired_def fetch_resolved_def Let_def)

section \<open>Properties of the quota\<close>

text \<open>
  C2. \<open>getCurrentQuota\<close> is infinite for the empty schedule. Otherwise it is the number of
  positions of the schedule whose entry, resolved on the UTC day of \<open>now\<close>, is later than
  \<open>lastUpdate\<close> and not later than \<open>now\<close>.
\<close>

theorem getCurrentQuota_counts:
  "getCurrentQuota schedule lastUpdate now =
     (if schedule = [] then \<infinity>
      else enat (card {i. i < length schedule \<and>
             lastUpdate < toUTCTimestamp now (fst (schedule ! i)) (snd (schedule ! i)) \<and>
             toUTCTimestamp now (fst (schedule ! i)) (snd (schedule ! i)) \<le> now}))"
proof -
  have "length (filter (\<lambda>(hour, minute). toUTCTimestamp now hour minute \<le> now
                 \<and> lastUpdate < toUTCTimestamp now hour minute) schedule)
        = card {i. i < length schedule \<and>
             lastUpdate < toUTCTimestamp now (fst (schedule ! i)) (snd (schedule ! i)) \<and>
             toUTCTimestamp now (fst (schedule ! i)) (snd (schedule ! i)) \<le> now}"
    unfolding length_filter_conv_card
    by (rule arg_cong [where f = card]) (auto simp: case_prod_beta)
  then show ?thesis by (simp add: getCurrentQuota_def)
qed

text \<open>
  The scenario of the test file: the clock at 0 when the handler is made, the entries one
  minute and one hour after, and twice one hour before; the clock then moves by 3700001.
\<close>

lemma getCurrentQuota_test:
  "getCurrentQuota [(0, 1), (1, 0), (- 1, 0), (- 1, 0)] 0 3700001 = enat 2"
  by (simp add: getCurrentQuota_def toUTCTimestamp_def)

end
